theory Spec2Isabelle
  imports Complex_Main "HOL-Library.Multiset"
begin

section \<open>Data model (types file of the repository)\<close>

text \<open>
  The card game's types, as the TypeScript declares them. String-literal unions are
  datatypes; interfaces are records. Field names that two interfaces share
  (\<open>instanceId\<close>, \<open>card\<close>) carry the prefix \<open>asset\<close> in \<open>CyberAsset\<close>.
  Where a literal is used by two unions (\<open>attack\<close>, \<open>defend\<close>, \<open>coin_flip\<close>, \<open>player\<close>,
  \<open>ai\<close>), the constructors are prefixed or capitalised; the phase literal \<open>setup\<close> is
  \<open>setup_phase\<close>.

  The risk and control descriptions of a card (\<open>owaspRisk\<close>, \<open>owaspControl\<close>) are looked up
  from the card's value in a constant table and only displayed; the asset's display name is
  looked up from its face type. They are left out of the cards. The display-only fields
  \<open>message\<close> and \<open>showOwaspInfo\<close> of the game state and the \<open>details\<close> and \<open>reasoning\<close>
  texts are left out as well.
\<close>

datatype TASuit = hearts | diamonds
datatype DCSuit = spades | clubs
datatype Suit = TA TASuit | DC DCSuit
datatype FaceCardType = jack | queen | king
datatype JokerType = black | red
datatype CardCategory = threat_agent | defense_control | asset | joker
datatype AssetState = facedown | revealed | rotated | destroyed
datatype GamePhase =
    difficulty_select | coin_flip | setup_phase | draw_phase | attack_phase
  | defense_phase | resolution_phase | player_won | ai_won
datatype AnimationType = anim_none | anim_attack | anim_defend | anim_damage | anim_coin_flip
datatype AttackStage = observation | assessment | pwn
datatype Difficulty = easy | hard | brutal
datatype Side = Player | AI
datatype AIAction = act_attack | act_defend | act_draw_end | act_reboot

text \<open>
  \<open>PlayableCard = ThreatAgentCard | DefenseControlCard | JokerCard\<close>, with the fields card id,
  suit and value (joker: card id and joker type). The source's card id is the text \<open>card-n\<close>
  for the value \<open>n\<close> of a module-wide counter; the model keeps the number \<open>n\<close>.
\<close>

datatype PlayableCard =
    ThreatAgentCard nat TASuit nat
  | DefenseControlCard nat DCSuit nat
  | JokerCard nat JokerType

fun category :: "PlayableCard \<Rightarrow> CardCategory" where
  "category (ThreatAgentCard i s v) = threat_agent"
| "category (DefenseControlCard i s v) = defense_control"
| "category (JokerCard i t) = joker"

text \<open>The property \<open>value\<close> of a card; a joker has none (\<open>undefined\<close> in the source).\<close>

fun card_value :: "PlayableCard \<Rightarrow> nat option" where
  "card_value (ThreatAgentCard i s v) = Some v"
| "card_value (DefenseControlCard i s v) = Some v"
| "card_value (JokerCard i t) = None"

record AssetCard =
  assetCardId :: nat
  assetSuit :: Suit
  faceType :: FaceCardType

record HandCard =
  instanceId :: string
  card :: PlayableCard

record CyberAsset =
  assetInstanceId :: string
  assetCard :: AssetCard
  state :: AssetState
  damageCount :: nat

record PlayerState =
  assets :: "CyberAsset list"
  taHand :: "HandCard list"
  dcHand :: "HandCard list"
  taDiscard :: "PlayableCard list"
  dcDiscard :: "PlayableCard list"
  successfulDefenses :: nat

record AttackState =
  targetAsset :: "CyberAsset option"
  attackCard :: "HandCard option"
  stage :: AttackStage
  attacksThisRound :: nat

record GameAction =
  actor :: Side
  action :: string

record GameState =
  phase :: GamePhase
  currentAttacker :: Side
  difficulty :: "Difficulty option"
  player :: PlayerState
  ai :: PlayerState
  taDeck :: "PlayableCard list"
  dcDeck :: "PlayableCard list"
  attackState :: "AttackState option"
  turnNumber :: nat
  cardsDrawnThisGame :: nat
  lastAction :: "GameAction option"
  actionLog :: "GameAction list"
  selectedCard :: "HandCard option"
  selectedAsset :: "CyberAsset option"
  animation :: AnimationType
  coinFlipResult :: "Side option"

record AIDecision =
  decAction :: AIAction
  decCard :: "HandCard option"

record FullDeck =
  taCards :: "PlayableCard list"
  dcCards :: "PlayableCard list"
  taAssets :: "AssetCard list"
  dcAssets :: "AssetCard list"
  jokers :: "PlayableCard list"

text \<open>
  What the program takes from outside a call: the value of the card-id counter, the results of
  \<open>Math.random()\<close> and the results of \<open>generateInstanceId()\<close> (the clock and a random text).
  \<open>rndShuffle n i\<close> is the draw of shuffle number \<open>n\<close> at loop index \<open>i\<close>; \<open>rnd k j\<close> is draw
  number \<open>j\<close> of round \<open>k\<close>; \<open>newId k j\<close> is the \<open>j\<close>-th instance id made in round \<open>k\<close>. The
  rounds are named where they are used. \<open>Math.random()\<close> lies in \<open>[0, 1)\<close>.
\<close>

record Env =
  cardIdCounter :: nat
  rndShuffle :: "nat \<Rightarrow> nat \<Rightarrow> real"
  rnd :: "nat \<Rightarrow> nat \<Rightarrow> real"
  newId :: "nat \<Rightarrow> nat \<Rightarrow> string"

datatype error = TypeError

section \<open>Match rule (card data module)\<close>

text \<open>\<open>canDefend(attackCard, defenseCard)\<close>, with the source's order of tests.\<close>

definition canDefend :: "PlayableCard \<Rightarrow> PlayableCard \<Rightarrow> bool" where
  "canDefend attackC defenseC =
     (if category defenseC = joker then True
      else if category attackC = joker then True
      else if category defenseC \<noteq> defense_control then False
      else if category attackC \<noteq> threat_agent then False
      else card_value defenseC = card_value attackC)"

section \<open>Deck builder (card data module)\<close>

definition cardValues :: "nat list" where
  "cardValues = [1, 2, 3, 4, 5, 6, 7, 8, 9, 10]"

definition faceTypes :: "(nat \<times> FaceCardType) list" where
  "faceTypes = [(1, jack), (2, queen), (3, king)]"

text \<open>
  \<open>generateFullDeck()\<close>: the counter \<open>c\<close> is advanced once for each card, in the order of the
  loops: per suit ten value cards and then three face cards; the two jokers last.
\<close>

definition generateFullDeck :: "nat \<Rightarrow> FullDeck" where
  "generateFullDeck c =
     \<lparr> taCards = map (\<lambda>v. ThreatAgentCard (c + v) hearts v) cardValues
                 @ map (\<lambda>v. ThreatAgentCard (c + 13 + v) diamonds v) cardValues,
       dcCards = map (\<lambda>v. DefenseControlCard (c + 26 + v) spades v) cardValues
                 @ map (\<lambda>v. DefenseControlCard (c + 39 + v) clubs v) cardValues,
       taAssets = map (\<lambda>(j, f). \<lparr>assetCardId = c + 10 + j, assetSuit = TA hearts, faceType = f\<rparr>) faceTypes
                 @ map (\<lambda>(j, f). \<lparr>assetCardId = c + 23 + j, assetSuit = TA diamonds, faceType = f\<rparr>) faceTypes,
       dcAssets = map (\<lambda>(j, f). \<lparr>assetCardId = c + 36 + j, assetSuit = DC spades, faceType = f\<rparr>) faceTypes
                 @ map (\<lambda>(j, f). \<lparr>assetCardId = c + 49 + j, assetSuit = DC clubs, faceType = f\<rparr>) faceTypes,
       jokers = [JokerCard (c + 53) black, JokerCard (c + 54) red] \<rparr>"

text \<open>
  The Fisher-Yates loop of \<open>createShuffledDeck\<close> and \<open>shuffle\<close>: for \<open>i\<close> from the last index
  down to 1, exchange the entries \<open>i\<close> and \<open>j = floor (random * (i + 1))\<close>. With a draw in
  \<open>[0, 1)\<close> the index \<open>j\<close> is at most \<open>i\<close>.
\<close>

definition swap :: "nat \<Rightarrow> nat \<Rightarrow> 'a list \<Rightarrow> 'a list" where
  "swap i j xs = xs[i := xs ! j, j := xs ! i]"

fun shuffle_from :: "(nat \<Rightarrow> real) \<Rightarrow> nat \<Rightarrow> 'a list \<Rightarrow> 'a list" where
  "shuffle_from r 0 xs = xs"
| "shuffle_from r (Suc i) xs =
     shuffle_from r i (swap (Suc i) (nat \<lfloor>r (Suc i) * real (Suc i + 1)\<rfloor>) xs)"

definition shuffle :: "(nat \<Rightarrow> real) \<Rightarrow> 'a list \<Rightarrow> 'a list" where
  "shuffle r xs = shuffle_from r (length xs - 1) xs"

definition createShuffledDeck :: "(nat \<Rightarrow> real) \<Rightarrow> PlayableCard list \<Rightarrow> PlayableCard list" where
  "createShuffledDeck r cards = shuffle_from r (length cards - 1) cards"

section \<open>Helpers module\<close>

definition createHandCard :: "string \<Rightarrow> PlayableCard \<Rightarrow> HandCard" where
  "createHandCard iid c = \<lparr>instanceId = iid, card = c\<rparr>"

definition createCyberAsset :: "string \<Rightarrow> AssetCard \<Rightarrow> CyberAsset" where
  "createCyberAsset iid c =
     \<lparr>assetInstanceId = iid, assetCard = c, state = facedown, damageCount = 0\<rparr>"

text \<open>\<open>xs.map(createHandCard)\<close>, the instance ids taken from \<open>gen k\<close>, \<open>gen (k + 1)\<close>, ...\<close>

fun mapHandCards :: "(nat \<Rightarrow> string) \<Rightarrow> nat \<Rightarrow> PlayableCard list \<Rightarrow> HandCard list" where
  "mapHandCards gen k [] = []"
| "mapHandCards gen k (c # cs) = createHandCard (gen k) c # mapHandCards gen (Suc k) cs"

fun mapCyberAssets :: "(nat \<Rightarrow> string) \<Rightarrow> nat \<Rightarrow> AssetCard list \<Rightarrow> CyberAsset list" where
  "mapCyberAssets gen k [] = []"
| "mapCyberAssets gen k (c # cs) = createCyberAsset (gen k) c # mapCyberAssets gen (Suc k) cs"

text \<open>An array read \<open>xs[i]\<close> that may be \<open>undefined\<close>.\<close>

fun first :: "'a list \<Rightarrow> 'a option" where
  "first [] = None"
| "first (x # xs) = Some x"

text \<open>\<open>getRandomElement(array)\<close>: \<open>array[floor (random * length)]\<close>, \<open>undefined\<close> out of range.\<close>

definition getRandomElement :: "real \<Rightarrow> 'a list \<Rightarrow> 'a option" where
  "getRandomElement r xs =
     (if xs = [] then None
      else let i = \<lfloor>r * real (length xs)\<rfloor>
           in if 0 \<le> i \<and> nat i < length xs then Some (xs ! nat i) else None)"

text \<open>
  \<open>[...xs].sort(cmp)\<close>: the sort of the language is stable, and the comparators of this
  program are consistent orders, so the result is the one of a stable insertion sort:
  an element goes before the elements it does not compare greater than.
\<close>

fun insert_by :: "('a \<Rightarrow> 'a \<Rightarrow> int) \<Rightarrow> 'a \<Rightarrow> 'a list \<Rightarrow> 'a list" where
  "insert_by cmp x [] = [x]"
| "insert_by cmp x (y # ys) = (if cmp x y \<le> 0 then x # y # ys else y # insert_by cmp x ys)"

definition sort_by :: "('a \<Rightarrow> 'a \<Rightarrow> int) \<Rightarrow> 'a list \<Rightarrow> 'a list" where
  "sort_by cmp xs = foldr (insert_by cmp) xs []"

text \<open>\<open>xs.findIndex(p)\<close>, with \<open>None\<close> for \<open>-1\<close>.\<close>

fun findIndex :: "('a \<Rightarrow> bool) \<Rightarrow> 'a list \<Rightarrow> nat option" where
  "findIndex p [] = None"
| "findIndex p (x # xs) = (if p x then Some 0 else map_option Suc (findIndex p xs))"

section \<open>AI decision module\<close>

text \<open>The value an attack card is sorted by: its value, 0 for a card that is no threat agent.\<close>

definition attackValue :: "HandCard \<Rightarrow> int" where
  "attackValue hc =
     (if category (card hc) = threat_agent
      then (case card_value (card hc) of Some v \<Rightarrow> int v | None \<Rightarrow> 0) else 0)"

definition byValueDesc :: "HandCard \<Rightarrow> HandCard \<Rightarrow> int" where
  "byValueDesc a b = attackValue b - attackValue a"

text \<open>
  \<open>aiChooseAttackCard(taHand, _targetAsset, defenderDcHand, difficulty)\<close>. Reading \<open>.card\<close> of
  an undefined first element raises a TypeError; that happens when the hand is not empty
  but holds neither a threat agent nor a joker.
\<close>

definition aiChooseAttackCard ::
  "real \<Rightarrow> HandCard list \<Rightarrow> CyberAsset \<Rightarrow> HandCard list \<Rightarrow> Difficulty \<Rightarrow> error + AIDecision" where
  "aiChooseAttackCard r taH target defenderDcHand diff =
     (if taH = [] then Inr \<lparr>decAction = act_draw_end, decCard = None\<rparr>
      else
        let taCs = filter (\<lambda>hc. category (card hc) = threat_agent) taH;
            jokerCs = filter (\<lambda>hc. category (card hc) = joker) taH;
            usableAttackCards = (if taCs \<noteq> [] then taCs else jokerCs)
        in if diff = easy then
             (case (case getRandomElement r usableAttackCards of
                      Some c \<Rightarrow> Some c | None \<Rightarrow> first usableAttackCards) of
                None \<Rightarrow> Inl TypeError
              | Some chosen \<Rightarrow> Inr \<lparr>decAction = act_attack, decCard = Some chosen\<rparr>)
           else
             let defenderCards = map card defenderDcHand;
                 notDefendable = filter (\<lambda>att. \<not> list_ex (\<lambda>d. canDefend (card att) d) defenderCards)
                                   usableAttackCards
             in if notDefendable \<noteq> [] then
                  Inr \<lparr>decAction = act_attack, decCard = first (sort_by byValueDesc notDefendable)\<rparr>
                else
                  let matchingDcValues =
                        map card_value (filter (\<lambda>c. category c = defense_control) defenderCards);
                      forcesJoker = filter (\<lambda>att. category (card att) = threat_agent
                                                \<and> card_value (card att) \<notin> set matchingDcValues)
                                      usableAttackCards
                  in if forcesJoker \<noteq> [] then
                       Inr \<lparr>decAction = act_attack, decCard = first (sort_by byValueDesc forcesJoker)\<rparr>
                     else
                       (case first (sort_by byValueDesc usableAttackCards) of
                          None \<Rightarrow> Inl TypeError
                        | Some fallback \<Rightarrow> Inr \<lparr>decAction = act_attack, decCard = Some fallback\<rparr>))"

fun stateRank :: "AssetState \<Rightarrow> int" where
  "stateRank facedown = 1"
| "stateRank revealed = 2"
| "stateRank rotated = 3"
| "stateRank destroyed = 0"

definition targetOrder :: "CyberAsset \<Rightarrow> CyberAsset \<Rightarrow> int" where
  "targetOrder a b =
     (let rankDiff = stateRank (state b) - stateRank (state a)
      in if rankDiff \<noteq> 0 then rankDiff else int (damageCount b) - int (damageCount a))"

definition aiChooseTarget :: "CyberAsset list \<Rightarrow> CyberAsset option" where
  "aiChooseTarget as =
     (let validTargets = filter (\<lambda>a. state a \<noteq> destroyed) as
      in if validTargets = [] then None else first (sort_by targetOrder validTargets))"

definition defendChance :: "Difficulty \<Rightarrow> real" where
  "defendChance diff = (if diff = easy then 0.15 else if diff = hard then 0.5 else 0.95)"

definition aiChooseDefense :: "real \<Rightarrow> HandCard list \<Rightarrow> PlayableCard \<Rightarrow> Difficulty \<Rightarrow> AIDecision" where
  "aiChooseDefense r dcH attackC diff =
     (if dcH = [] then \<lparr>decAction = act_defend, decCard = None\<rparr>
      else
        let validDefenses = filter (\<lambda>hc. canDefend attackC (card hc)) dcH
        in if validDefenses = [] then \<lparr>decAction = act_defend, decCard = None\<rparr>
           else if \<not> (r < defendChance diff) then \<lparr>decAction = act_defend, decCard = None\<rparr>
           else
             let nonJokerDefenses = filter (\<lambda>hc. category (card hc) \<noteq> joker) validDefenses
             in if nonJokerDefenses \<noteq> [] then
                  \<lparr>decAction = act_defend, decCard = first nonJokerDefenses\<rparr>
                else
                  \<lparr>decAction = act_defend,
                   decCard = find (\<lambda>hc. category (card hc) = joker) validDefenses\<rparr>)"

definition continueChance :: "Difficulty \<Rightarrow> real" where
  "continueChance diff = (if diff = easy then 0.3 else if diff = hard then 0.7 else 0.95)"

definition aiDecideContinueOrEnd ::
  "real \<Rightarrow> HandCard list \<Rightarrow> nat \<Rightarrow> CyberAsset list \<Rightarrow> Difficulty \<Rightarrow> AIDecision" where
  "aiDecideContinueOrEnd r taH successfulAttacks targetAssets diff =
     (let validTargets = filter (\<lambda>a. state a \<noteq> destroyed) targetAssets
      in if validTargets = [] then \<lparr>decAction = act_draw_end, decCard = None\<rparr>
         else if taH = [] then \<lparr>decAction = act_draw_end, decCard = None\<rparr>
         else
           let rotatedTargets = filter (\<lambda>a. state a = rotated) validTargets
           in if rotatedTargets \<noteq> [] \<and> length taH \<ge> 1 then \<lparr>decAction = act_attack, decCard = None\<rparr>
              else if length taH < 3 then \<lparr>decAction = act_draw_end, decCard = None\<rparr>
              else if r < continueChance diff then \<lparr>decAction = act_attack, decCard = None\<rparr>
              else \<lparr>decAction = act_draw_end, decCard = None\<rparr>)"

section \<open>Game state hook\<close>

definition HAND_SIZE :: nat where "HAND_SIZE = 5"
definition ASSETS_PER_PLAYER :: nat where "ASSETS_PER_PLAYER = 3"
definition ASSETS_TO_WIN :: nat where "ASSETS_TO_WIN = 2"
definition DEFENSES_TO_WIN :: nat where "DEFENSES_TO_WIN = 6"

text \<open>
  \<open>initializeGame()\<close>. The four shuffles use the draws \<open>rndShuffle e 0\<close> to \<open>rndShuffle e 3\<close>;
  the six \<open>map\<close> calls make their instance ids in the rounds 0 to 5.
  \<open>xs.slice(a, b)\<close> is \<open>take (b - a) (drop a xs)\<close>.
\<close>

definition initializeGame :: "Env \<Rightarrow> GameState" where
  "initializeGame e =
     (let deck = generateFullDeck (cardIdCounter e);
          shuffledTA = createShuffledDeck (rndShuffle e 0) (taCards deck @ [jokers deck ! 0]);
          shuffledDC = createShuffledDeck (rndShuffle e 1) (dcCards deck @ [jokers deck ! 1]);
          shuffledTAAssets = shuffle (rndShuffle e 2) (taAssets deck);
          shuffledDCAssets = shuffle (rndShuffle e 3) (dcAssets deck);
          playerTAHand = mapHandCards (newId e 0) 0 (take HAND_SIZE shuffledTA);
          playerDCHand = mapHandCards (newId e 1) 0 (take HAND_SIZE shuffledDC);
          playerAssets = mapCyberAssets (newId e 2) 0 (take ASSETS_PER_PLAYER shuffledDCAssets);
          aiTAHand = mapHandCards (newId e 3) 0 (take HAND_SIZE (drop HAND_SIZE shuffledTA));
          aiDCHand = mapHandCards (newId e 4) 0 (take HAND_SIZE (drop HAND_SIZE shuffledDC));
          aiAssets = mapCyberAssets (newId e 5) 0 (take ASSETS_PER_PLAYER shuffledTAAssets)
      in \<lparr> phase = difficulty_select,
           currentAttacker = Player,
           difficulty = None,
           player = \<lparr> assets = playerAssets, taHand = playerTAHand, dcHand = playerDCHand,
                      taDiscard = [], dcDiscard = [], successfulDefenses = 0 \<rparr>,
           ai = \<lparr> assets = aiAssets, taHand = aiTAHand, dcHand = aiDCHand,
                  taDiscard = [], dcDiscard = [], successfulDefenses = 0 \<rparr>,
           taDeck = drop (HAND_SIZE * 2) shuffledTA,
           dcDeck = drop (HAND_SIZE * 2) shuffledDC,
           attackState = None,
           turnNumber = 1,
           cardsDrawnThisGame = HAND_SIZE * 4,
           lastAction = None,
           actionLog = [],
           selectedCard = None,
           selectedAsset = None,
           animation = anim_coin_flip,
           coinFlipResult = None \<rparr>)"

fun getNextAssetState :: "AssetState \<Rightarrow> AssetState" where
  "getNextAssetState facedown = revealed"
| "getNextAssetState revealed = rotated"
| "getNextAssetState rotated = destroyed"
| "getNextAssetState current = current"

definition destroyedAssets :: "CyberAsset list \<Rightarrow> nat" where
  "destroyedAssets as = length (filter (\<lambda>a. state a = destroyed) as)"

definition checkWinCondition :: "GameState \<Rightarrow> GamePhase" where
  "checkWinCondition s =
     (let playerDestroyedAssets = destroyedAssets (assets (player s));
          aiDestroyedAssets = destroyedAssets (assets (ai s))
      in if playerDestroyedAssets \<ge> ASSETS_TO_WIN then ai_won
         else if aiDestroyedAssets \<ge> ASSETS_TO_WIN then player_won
         else if successfulDefenses (player s) \<ge> DEFENSES_TO_WIN then player_won
         else if successfulDefenses (ai s) \<ge> DEFENSES_TO_WIN then ai_won
         else phase s)"

text \<open>\<open>getWinReason(state)\<close>: the phase of the result, \<open>None\<close> for \<open>null\<close>.\<close>

definition getWinReason :: "GameState \<Rightarrow> GamePhase option" where
  "getWinReason s =
     (let playerDestroyedAssets = destroyedAssets (assets (player s));
          aiDestroyedAssets = destroyedAssets (assets (ai s))
      in if playerDestroyedAssets \<ge> ASSETS_TO_WIN then Some ai_won
         else if aiDestroyedAssets \<ge> ASSETS_TO_WIN then Some player_won
         else if successfulDefenses (player s) \<ge> DEFENSES_TO_WIN then Some player_won
         else if successfulDefenses (ai s) \<ge> DEFENSES_TO_WIN then Some ai_won
         else None)"

text \<open>\<open>drawToHandSize(hand, deck, targetSize)\<close>; the drawn cards get the ids \<open>gen 0\<close>, \<open>gen 1\<close>, ...\<close>

fun drawToHandSize ::
  "(nat \<Rightarrow> string) \<Rightarrow> HandCard list \<Rightarrow> PlayableCard list \<Rightarrow> nat \<Rightarrow> HandCard list \<times> PlayableCard list" where
  "drawToHandSize gen newHand [] targetSize = (newHand, [])"
| "drawToHandSize gen newHand (c # newDeck) targetSize =
     (if length newHand < targetSize
      then drawToHandSize (\<lambda>n. gen (Suc n)) (newHand @ [createHandCard (gen 0) c]) newDeck targetSize
      else (newHand, c # newDeck))"

definition addLogToState :: "GameState \<Rightarrow> GameAction \<Rightarrow> GameState" where
  "addLogToState s entry =
     (let appended = actionLog s @ [entry]
      in s\<lparr>lastAction := Some entry, actionLog := drop (length appended - 200) appended\<rparr>)"

definition selectCard :: "HandCard option \<Rightarrow> GameState \<Rightarrow> GameState" where
  "selectCard c s = s\<lparr>selectedCard := c\<rparr>"

definition selectAsset :: "CyberAsset option \<Rightarrow> GameState \<Rightarrow> GameState" where
  "selectAsset a s = s\<lparr>selectedAsset := a\<rparr>"

definition setDifficulty :: "Difficulty \<Rightarrow> GameState \<Rightarrow> GameState" where
  "setDifficulty d s = s\<lparr>difficulty := Some d, phase := coin_flip\<rparr>"

definition resetGame :: "Env \<Rightarrow> GameState" where
  "resetGame e = initializeGame e"

text \<open>The stage of an attack, \<open>attackState?.attacksThisRound || 0\<close> and \<open>difficulty || 'hard'\<close>.\<close>

definition stageOf :: "AssetState \<Rightarrow> AttackStage" where
  "stageOf st = (if st = facedown then observation else if st = revealed then assessment else pwn)"

definition attacksSoFar :: "AttackState option \<Rightarrow> nat" where
  "attacksSoFar a = (case a of None \<Rightarrow> 0 | Some x \<Rightarrow> attacksThisRound x)"

definition orHard :: "Difficulty option \<Rightarrow> Difficulty" where
  "orHard d = (case d of None \<Rightarrow> hard | Some x \<Rightarrow> x)"

text \<open>\<open>hand.filter(c => c.instanceId !== x.instanceId)\<close>.\<close>

definition withoutCard :: "HandCard \<Rightarrow> HandCard list \<Rightarrow> HandCard list" where
  "withoutCard x hand = filter (\<lambda>c. instanceId c \<noteq> instanceId x) hand"

text \<open>
  The asset at the index found by instance id is replaced by a copy with the next state of
  the target record and its own damage count plus one.
\<close>

definition damageAt :: "nat \<Rightarrow> CyberAsset \<Rightarrow> CyberAsset list \<Rightarrow> CyberAsset list" where
  "damageAt i target as =
     as[i := (as ! i)\<lparr>state := getNextAssetState (state target),
                       damageCount := damageCount (as ! i) + 1\<rparr>]"

subsection \<open>The player's attack\<close>

text \<open>The branch of \<open>playerAttack\<close> taken when the AI's decision carries a defense card.\<close>

definition playerAttackBlocked :: "Env \<Rightarrow> HandCard \<Rightarrow> HandCard \<Rightarrow> GameState \<Rightarrow> GameState" where
  "playerAttackBlocked e attackC defenseC s =
     (let remaining = withoutCard defenseC (dcHand (ai s));
          (aiNewDC, dcDeck1) = drawToHandSize (newId e 0) remaining (dcDeck s) (length remaining + 2);
          s1 = s\<lparr> player := (player s)\<lparr> taHand := withoutCard attackC (taHand (player s)),
                                        taDiscard := taDiscard (player s) @ [card attackC] \<rparr>,
                 ai := (ai s)\<lparr> dcHand := aiNewDC,
                                dcDiscard := dcDiscard (ai s) @ [card defenseC],
                                successfulDefenses := successfulDefenses (ai s) + 1 \<rparr>,
                 dcDeck := dcDeck1 \<rparr>;
          s2 = addLogToState s1 \<lparr>actor = AI, action = ''Defended''\<rparr>;
          s3 = addLogToState s2 \<lparr>actor = Player, action = ''Attack Blocked''\<rparr>
      in s3\<lparr>phase := attack_phase, attackState := None, animation := anim_defend\<rparr>)"

text \<open>The branch taken when the decision carries no card.\<close>

definition playerAttackHit :: "HandCard \<Rightarrow> CyberAsset \<Rightarrow> GameState \<Rightarrow> GameState" where
  "playerAttackHit attackC target s =
     (let s1 = (case findIndex (\<lambda>a. assetInstanceId a = assetInstanceId target) (assets (ai s)) of
                  None \<Rightarrow> s
                | Some assetIndex \<Rightarrow>
                    addLogToState (s\<lparr>ai := (ai s)\<lparr>assets := damageAt assetIndex target (assets (ai s))\<rparr>\<rparr>)
                      \<lparr>actor = Player, action = ''Attack Hit''\<rparr>)
      in s1\<lparr> player := (player s1)\<lparr> taHand := withoutCard attackC (taHand (player s1)),
                                     taDiscard := taDiscard (player s1) @ [card attackC] \<rparr>,
              phase := attack_phase, attackState := None, animation := anim_damage \<rparr>)"

text \<open>The win test at the end of \<open>playerAttack\<close>.\<close>

definition applyWin :: "GameState \<Rightarrow> GameState" where
  "applyWin s =
     (case getWinReason s of
        None \<Rightarrow> s
      | Some winPhase \<Rightarrow>
          addLogToState (s\<lparr>phase := winPhase\<rparr>)
            \<lparr>actor = (if winPhase = player_won then Player else AI), action = ''Game End''\<rparr>)"

text \<open>The state \<open>playerAttack\<close> shows while the defender decides.\<close>

definition playerAttackStart :: "HandCard \<Rightarrow> CyberAsset \<Rightarrow> GameState \<Rightarrow> GameState" where
  "playerAttackStart attackC target gameState =
     addLogToState
       (gameState\<lparr> attackState := Some \<lparr> targetAsset = Some target,
                                           attackCard = Some attackC,
                                           stage = stageOf (state target),
                                           attacksThisRound = attacksSoFar (attackState gameState) + 1 \<rparr>,
                    phase := defense_phase,
                    selectedCard := None,
                    selectedAsset := None,
                    animation := anim_attack \<rparr>)
       \<lparr>actor = Player, action = ''Attack''\<rparr>"

text \<open>
  \<open>playerAttack()\<close>, with the flag \<open>isProcessing\<close> of the hook. The call runs to its end in one
  step; the pauses between its state updates are not modelled. The AI's decision uses the draw
  \<open>rnd e 0 0\<close>, its redraw the instance ids of round 0.
\<close>

definition playerAttack :: "Env \<Rightarrow> bool \<Rightarrow> GameState \<Rightarrow> GameState" where
  "playerAttack e isProcessing gameState =
     (if isProcessing then gameState
      else case selectedCard gameState of
        None \<Rightarrow> gameState
      | Some attackC \<Rightarrow>
        (case selectedAsset gameState of
           None \<Rightarrow> gameState
         | Some target \<Rightarrow>
           if phase gameState \<noteq> attack_phase then gameState
           else if currentAttacker gameState \<noteq> Player then gameState
           else
             let newState = playerAttackStart attackC target gameState;
                 aiDecision = aiChooseDefense (rnd e 0 0) (dcHand (ai newState)) (card attackC)
                                (orHard (difficulty gameState));
                 resolved = (case decCard aiDecision of
                               Some defenseC \<Rightarrow> playerAttackBlocked e attackC defenseC newState
                             | None \<Rightarrow> playerAttackHit attackC target newState)
             in (applyWin resolved)\<lparr>animation := anim_none\<rparr>))"

subsection \<open>The AI's turn\<close>

text \<open>The branch of the loop body taken when the player's hand holds a defending card.\<close>

definition aiAttackBlocked :: "Env \<Rightarrow> nat \<Rightarrow> HandCard \<Rightarrow> HandCard \<Rightarrow> GameState \<Rightarrow> GameState" where
  "aiAttackBlocked e k attackC playerDefense s =
     (let remaining = withoutCard playerDefense (dcHand (player s));
          (newHand, newDeck) = drawToHandSize (newId e (k + 2)) remaining (dcDeck s) (length remaining + 2)
      in addLogToState
           (s\<lparr> animation := anim_defend,
               ai := (ai s)\<lparr> taHand := withoutCard attackC (taHand (ai s)),
                              taDiscard := taDiscard (ai s) @ [card attackC] \<rparr>,
               player := (player s)\<lparr> dcHand := newHand,
                                      dcDiscard := dcDiscard (player s) @ [card playerDefense],
                                      successfulDefenses := successfulDefenses (player s) + 1 \<rparr>,
               dcDeck := newDeck \<rparr>)
           \<lparr>actor = Player, action = ''Defended''\<rparr>)"

text \<open>The branch taken when it holds none, up to the decision to go on.\<close>

definition aiAttackHit :: "HandCard \<Rightarrow> CyberAsset \<Rightarrow> GameState \<Rightarrow> GameState" where
  "aiAttackHit attackC target s =
     (let s0 = s\<lparr>animation := anim_damage\<rparr>;
          s1 = (case findIndex (\<lambda>a. assetInstanceId a = assetInstanceId target) (assets (player s0)) of
                  None \<Rightarrow> s0
                | Some assetIndex \<Rightarrow>
                    addLogToState
                      (s0\<lparr>player := (player s0)\<lparr>assets := damageAt assetIndex target (assets (player s0))\<rparr>\<rparr>)
                      \<lparr>actor = AI, action = ''Attack Hit''\<rparr>)
      in s1\<lparr>ai := (ai s1)\<lparr> taHand := withoutCard attackC (taHand (ai s1)),
                             taDiscard := taDiscard (ai s1) @ [card attackC] \<rparr>\<rparr>)"

text \<open>The win test at the end of the loop body: the flag to go on and the state.\<close>

definition aiWinCheck :: "bool \<Rightarrow> GameState \<Rightarrow> bool \<times> GameState" where
  "aiWinCheck continueAttacking s =
     (let winCheck = checkWinCondition s
      in if winCheck \<noteq> attack_phase \<and> winCheck \<noteq> defense_phase
         then (False, s\<lparr>phase := winCheck\<rparr>)
         else (continueAttacking, s))"

text \<open>The state the loop body shows while the attack is announced.\<close>

definition aiAttackStart :: "HandCard \<Rightarrow> CyberAsset \<Rightarrow> GameState \<Rightarrow> GameState" where
  "aiAttackStart attackC target s =
     addLogToState
       (s\<lparr> attackState := Some \<lparr> targetAsset = Some target,
                                 attackCard = Some attackC,
                                 stage = stageOf (state target),
                                 attacksThisRound = attacksSoFar (attackState s) + 1 \<rparr>,
           animation := anim_attack \<rparr>)
       \<lparr>actor = AI, action = ''Attack''\<rparr>"

text \<open>
  One pass through the body of the loop of \<open>executeAITurn\<close>, number \<open>k\<close> from 0: the flag
  \<open>continueAttacking\<close> and the state at its end (a \<open>break\<close> leaves the flag false). It uses the
  draws \<open>rnd e (k + 2) 0\<close> for the attack card and \<open>rnd e (k + 2) 1\<close> for the decision to go on,
  and the instance ids of round \<open>k + 2\<close>.
\<close>

definition aiTurnPass :: "Env \<Rightarrow> nat \<Rightarrow> Difficulty \<Rightarrow> GameState \<Rightarrow> error + bool \<times> GameState" where
  "aiTurnPass e k diff s =
     (case aiChooseTarget (assets (player s)) of
        None \<Rightarrow> Inr (False, addLogToState s \<lparr>actor = AI, action = ''No Attack''\<rparr>)
      | Some target \<Rightarrow>
        (case aiChooseAttackCard (rnd e (k + 2) 0) (taHand (ai s)) target (dcHand (player s)) diff of
           Inl err \<Rightarrow> Inl err
         | Inr attackDecision \<Rightarrow>
           (case decCard attackDecision of
              None \<Rightarrow> Inr (False, addLogToState s \<lparr>actor = AI, action = ''No Attack''\<rparr>)
            | Some attackC \<Rightarrow>
              let s1 = aiAttackStart attackC target s
              in (case find (\<lambda>hc. canDefend (card attackC) (card hc)) (dcHand (player s1)) of
                    Some playerDefense \<Rightarrow>
                      Inr (aiWinCheck False (aiAttackBlocked e k attackC playerDefense s1))
                  | None \<Rightarrow>
                      let s2 = aiAttackHit attackC target s1;
                          continueDecision = aiDecideContinueOrEnd (rnd e (k + 2) 1) (taHand (ai s2)) 0
                                               (assets (player s2)) diff
                      in Inr (aiWinCheck (decAction continueDecision = act_attack) s2)))))"

section \<open>The loop of the AI's turn\<close>

text \<open>
  The loop of \<open>executeAITurn\<close> ends because every pass that asks to go on has played a card
  from the AI's attack hand. The facts below establish that.
\<close>

lemma set_insert_by: "set (insert_by cmp x ys) = insert x (set ys)"
  by (induction ys) auto

lemma set_sort_by: "set (sort_by cmp xs) = set xs"
  by (induction xs) (auto simp: sort_by_def set_insert_by)

lemma first_Some_mem: "first xs = Some x \<Longrightarrow> x \<in> set xs"
  by (cases xs) auto

lemma first_None_iff: "first xs = None \<longleftrightarrow> xs = []"
  by (cases xs) auto

lemma getRandomElement_mem: "getRandomElement r xs = Some x \<Longrightarrow> x \<in> set xs"
  by (auto simp: getRandomElement_def Let_def split: if_splits)

lemma aiChooseAttackCard_mem:
  assumes "aiChooseAttackCard r h t d diff = Inr dec" and "decCard dec = Some c"
  shows "c \<in> set h"
proof -
  let ?ta = "filter (\<lambda>hc. category (card hc) = threat_agent) h"
  let ?jo = "filter (\<lambda>hc. category (card hc) = joker) h"
  let ?us = "if ?ta \<noteq> [] then ?ta else ?jo"
  have sub: "set ?us \<subseteq> set h" by auto
  have "c \<in> set ?us"
    using assms
    apply (simp only: aiChooseAttackCard_def Let_def)
    apply (auto split: if_splits option.splits dest!: first_Some_mem getRandomElement_mem simp: set_sort_by)
    done
  with sub show ?thesis by blast
qed

lemma addLog_frame [simp]:
  "phase (addLogToState s en) = phase s"
  "currentAttacker (addLogToState s en) = currentAttacker s"
  "difficulty (addLogToState s en) = difficulty s"
  "player (addLogToState s en) = player s"
  "ai (addLogToState s en) = ai s"
  "taDeck (addLogToState s en) = taDeck s"
  "dcDeck (addLogToState s en) = dcDeck s"
  "attackState (addLogToState s en) = attackState s"
  "turnNumber (addLogToState s en) = turnNumber s"
  "selectedCard (addLogToState s en) = selectedCard s"
  "selectedAsset (addLogToState s en) = selectedAsset s"
  "animation (addLogToState s en) = animation s"
  "coinFlipResult (addLogToState s en) = coinFlipResult s"
  "cardsDrawnThisGame (addLogToState s en) = cardsDrawnThisGame s"
  by (simp_all add: addLogToState_def Let_def)

lemma aiWinCheck_eqD:
  "aiWinCheck c s = (c', s') \<Longrightarrow> (c' \<longrightarrow> c) \<and> player s' = player s \<and> ai s' = ai s"
  by (auto simp: aiWinCheck_def Let_def split: if_splits)

lemma length_withoutCard_less: "c \<in> set h \<Longrightarrow> length (withoutCard c h) < length h"
  unfolding withoutCard_def by (induction h) (auto simp: less_Suc_eq_le)

lemma aiTurnPass_shrinks:
  assumes "aiTurnPass e k diff s = Inr (True, s')"
  shows "length (taHand (ai s')) < length (taHand (ai s))"
proof -
  from assms obtain target dec attackC where
    dec: "aiChooseAttackCard (rnd e (k + 2) 0) (taHand (ai s)) target (dcHand (player s)) diff = Inr dec"
    and c: "decCard dec = Some attackC"
    and w: "taHand (ai s') = withoutCard attackC (taHand (ai s))"
    by (auto simp: aiTurnPass_def Let_def aiAttackHit_def aiAttackStart_def
        split: option.splits sum.splits dest!: aiWinCheck_eqD)
  from aiChooseAttackCard_mem[OF dec c] have "attackC \<in> set (taHand (ai s))" .
  then show ?thesis using w by (simp add: length_withoutCard_less)
qed

text \<open>
  \<open>while (continueAttacking && newState.phase === 'attack_phase') { ... }\<close>, the passes
  numbered from \<open>k\<close>.
\<close>

function executeAITurn_loop :: "Env \<Rightarrow> Difficulty \<Rightarrow> nat \<Rightarrow> bool \<Rightarrow> GameState \<Rightarrow> error + GameState" where
  "executeAITurn_loop e diff k continueAttacking s =
     (if continueAttacking \<and> phase s = attack_phase then
        (case aiTurnPass e k diff s of
           Inl err \<Rightarrow> Inl err
         | Inr (continueNext, s') \<Rightarrow> executeAITurn_loop e diff (Suc k) continueNext s')
      else Inr s)"
  by pat_completeness auto
termination
proof (relation "measure (\<lambda>(e, diff, k, c, s).
                   if c \<and> phase s = attack_phase then Suc (length (taHand (ai s))) else 0)")
  show "wf (measure (\<lambda>(e, diff, k, c, s).
              if c \<and> phase s = attack_phase then Suc (length (taHand (ai s))) else 0))"
    by simp
next
  fix e diff k continueAttacking s x2 x y
  assume "continueAttacking \<and> phase s = attack_phase" "aiTurnPass e k diff s = Inr x2" "(x, y) = x2"
  then show "((e, diff, Suc k, x, y), e, diff, k, continueAttacking, s)
         \<in> measure (\<lambda>(e, diff, k, c, s).
                      if c \<and> phase s = attack_phase then Suc (length (taHand (ai s))) else 0)"
    using aiTurnPass_shrinks[of e k diff s y] by (cases x) auto
qed

declare executeAITurn_loop.simps [simp del]

text \<open>
  \<open>executeAITurn(state)\<close>: the loop, then the AI's draw (instance ids of round 1) and the
  change of attacker when the phase is still \<open>attack_phase\<close>.
\<close>

definition executeAITurn :: "Env \<Rightarrow> GameState \<Rightarrow> error + GameState" where
  "executeAITurn e st =
     (case executeAITurn_loop e (orHard (difficulty st)) 0 True st of
        Inl err \<Rightarrow> Inl err
      | Inr newState \<Rightarrow>
          let ended =
                (if phase newState = attack_phase then
                   let (aiNewTA, taDeck1) =
                         drawToHandSize (newId e 1) (taHand (ai newState)) (taDeck newState)
                           (length (taHand (ai newState)) + 2)
                   in newState\<lparr> ai := (ai newState)\<lparr>taHand := aiNewTA\<rparr>,
                                 taDeck := taDeck1,
                                 currentAttacker := Player,
                                 turnNumber := turnNumber newState + 1 \<rparr>
                 else newState)
          in Inr (ended\<lparr>animation := anim_none\<rparr>))"

text \<open>The state \<open>endTurn\<close> hands to the AI's turn; the player's draw uses the instance ids of round 0.\<close>

definition endTurnDraw :: "Env \<Rightarrow> GameState \<Rightarrow> GameState" where
  "endTurnDraw e gameState =
     (let (playerNewTA, taDeck1) =
            drawToHandSize (newId e 0) (taHand (player gameState)) (taDeck gameState)
              (length (taHand (player gameState)) + 2)
      in gameState\<lparr> player := (player gameState)\<lparr>taHand := playerNewTA\<rparr>,
                     taDeck := taDeck1,
                     currentAttacker := AI,
                     turnNumber := turnNumber gameState + 1,
                     selectedCard := None,
                     selectedAsset := None \<rparr>)"

text \<open>\<open>endTurn()\<close>.\<close>

definition endTurn :: "Env \<Rightarrow> bool \<Rightarrow> GameState \<Rightarrow> error + GameState" where
  "endTurn e isProcessing gameState =
     (if isProcessing then Inr gameState
      else if phase gameState \<noteq> attack_phase then Inr gameState
      else if currentAttacker gameState \<noteq> Player then Inr gameState
      else executeAITurn e (endTurnDraw e gameState))"

text \<open>The state after the coin flip, for the winner \<open>result\<close>.\<close>

definition afterCoinFlip :: "Side \<Rightarrow> GameState \<Rightarrow> GameState" where
  "afterCoinFlip result gameState =
     gameState\<lparr> coinFlipResult := Some result,
                 currentAttacker := result,
                 phase := attack_phase,
                 animation := anim_none \<rparr>"

text \<open>\<open>performCoinFlip()\<close>; the coin is the draw \<open>rnd e 0 0\<close>.\<close>

definition performCoinFlip :: "Env \<Rightarrow> bool \<Rightarrow> GameState \<Rightarrow> error + GameState" where
  "performCoinFlip e isProcessing gameState =
     (if phase gameState \<noteq> coin_flip \<or> isProcessing \<or> difficulty gameState = None then Inr gameState
      else
        let result = (if rnd e 0 0 < 0.5 then Player else AI);
            nextState = afterCoinFlip result gameState
        in if result = AI then executeAITurn e nextState else Inr nextState)"

section \<open>Notions used in the statements\<close>

text \<open>
  The four win conditions in the order the specification gives them, each with the phase it
  leads to, and the phase of the first condition that holds.
\<close>

definition winConditions :: "GameState \<Rightarrow> (bool \<times> GamePhase) list" where
  "winConditions s =
     [(destroyedAssets (assets (player s)) \<ge> 2, ai_won),
      (destroyedAssets (assets (ai s)) \<ge> 2, player_won),
      (successfulDefenses (player s) \<ge> 6, player_won),
      (successfulDefenses (ai s) \<ge> 6, ai_won)]"

definition firstSatisfied :: "(bool \<times> GamePhase) list \<Rightarrow> GamePhase option" where
  "firstSatisfied cs = map_option snd (find fst cs)"

text \<open>
  Every asset that is destroyed in the first list is destroyed in the second, position by
  position. The second notion says that the record selected as target shows the state that the
  AI's asset with its instance id has.
\<close>

definition staysDestroyed :: "CyberAsset list \<Rightarrow> CyberAsset list \<Rightarrow> bool" where
  "staysDestroyed as as' =
     (length as' = length as \<and>
      list_all (\<lambda>(a, a'). state a = destroyed \<longrightarrow> state a' = destroyed) (zip as as'))"

definition targetShowsState :: "GameState \<Rightarrow> bool" where
  "targetShowsState s =
     (case selectedAsset s of
        None \<Rightarrow> True
      | Some t \<Rightarrow> list_all (\<lambda>a. assetInstanceId a = assetInstanceId t \<longrightarrow> state a = state t)
                    (assets (ai s)))"

text \<open>
  The index of a lifecycle state, the property that every asset of a list has a damage count
  equal to the index of its state, and the relation between the assets before and after a
  step: the same instance ids in the same order, and no index lower than before.
\<close>

fun stateIndex :: "AssetState \<Rightarrow> nat" where
  "stateIndex facedown = 0"
| "stateIndex revealed = 1"
| "stateIndex rotated = 2"
| "stateIndex destroyed = 3"

definition damageMirrorsState :: "CyberAsset list \<Rightarrow> bool" where
  "damageMirrorsState as = list_all (\<lambda>a. damageCount a = stateIndex (state a)) as"

definition advances :: "CyberAsset list \<Rightarrow> CyberAsset list \<Rightarrow> bool" where
  "advances as as' =
     (map assetInstanceId as' = map assetInstanceId as \<and>
      list_all (\<lambda>(a, a'). stateIndex (state a) \<le> stateIndex (state a')) (zip as as'))"

text \<open>The attack cards and the defense cards of a state: pile, both hands, both discards.\<close>

definition attackCards :: "GameState \<Rightarrow> nat" where
  "attackCards s = length (taDeck s) + length (taHand (player s)) + length (taHand (ai s))
                   + length (taDiscard (player s)) + length (taDiscard (ai s))"

definition defenseCards :: "GameState \<Rightarrow> nat" where
  "defenseCards s = length (dcDeck s) + length (dcHand (player s)) + length (dcHand (ai s))
                    + length (dcDiscard (player s)) + length (dcDiscard (ai s))"

text \<open>
  Instance ids are made to be unique. An environment makes distinct ids in distinct places;
  it is fresh for a state when none of its ids is the id of a card in a hand.
\<close>

definition idsDistinct :: "Env \<Rightarrow> bool" where
  "idsDistinct e = (\<forall>k j k' j'. newId e k j = newId e k' j' \<longrightarrow> k = k' \<and> j = j')"

definition handIds :: "GameState \<Rightarrow> string set" where
  "handIds s = instanceId ` (set (taHand (player s)) \<union> set (dcHand (player s))
                             \<union> set (taHand (ai s)) \<union> set (dcHand (ai s)))"

definition idsFresh :: "Env \<Rightarrow> GameState \<Rightarrow> bool" where
  "idsFresh e s = (idsDistinct e \<and> (\<forall>k j. newId e k j \<notin> handIds s))"

text \<open>
  What \<open>selectCard\<close> and \<open>selectAsset\<close> may be called with: anything; a card of the player's
  attack hand; an asset of the AI that is not destroyed.
\<close>

definition anyCard :: "GameState \<Rightarrow> HandCard \<Rightarrow> bool" where
  "anyCard s c = True"

definition anyAsset :: "GameState \<Rightarrow> CyberAsset \<Rightarrow> bool" where
  "anyAsset s a = True"

definition ownAttackCard :: "GameState \<Rightarrow> HandCard \<Rightarrow> bool" where
  "ownAttackCard s c = (c \<in> set (taHand (player s)))"

definition liveTarget :: "GameState \<Rightarrow> CyberAsset \<Rightarrow> bool" where
  "liveTarget s a = (a \<in> set (assets (ai s)) \<and> state a \<noteq> destroyed)"

text \<open>
  A step of the game: a call of one of the operations of the hook, while no other call is
  being processed, with the selections restricted by \<open>okCard\<close> and \<open>okAsset\<close>; and the states
  a game reaches from its start by such steps. \<open>resetGame\<close> starts another game: its result
  is a start.
\<close>

inductive hookStep ::
  "(GameState \<Rightarrow> HandCard \<Rightarrow> bool) \<Rightarrow> (GameState \<Rightarrow> CyberAsset \<Rightarrow> bool) \<Rightarrow> GameState \<Rightarrow> GameState \<Rightarrow> bool"
  for okCard okAsset where
  chooseDifficulty: "hookStep okCard okAsset s (setDifficulty d s)"
| coinFlip: "idsFresh e s \<Longrightarrow> performCoinFlip e False s = Inr s' \<Longrightarrow> hookStep okCard okAsset s s'"
| pickCard: "okCard s c \<Longrightarrow> hookStep okCard okAsset s (selectCard (Some c) s)"
| dropCard: "hookStep okCard okAsset s (selectCard None s)"
| pickAsset: "okAsset s a \<Longrightarrow> hookStep okCard okAsset s (selectAsset (Some a) s)"
| dropAsset: "hookStep okCard okAsset s (selectAsset None s)"
| attack: "idsFresh e s \<Longrightarrow> hookStep okCard okAsset s (playerAttack e False s)"
| finish: "idsFresh e s \<Longrightarrow> endTurn e False s = Inr s' \<Longrightarrow> hookStep okCard okAsset s s'"

inductive hookReachable ::
  "(GameState \<Rightarrow> HandCard \<Rightarrow> bool) \<Rightarrow> (GameState \<Rightarrow> CyberAsset \<Rightarrow> bool) \<Rightarrow> GameState \<Rightarrow> bool"
  for okCard okAsset where
  start: "idsDistinct e \<Longrightarrow> hookReachable okCard okAsset (initializeGame e)"
| step: "hookReachable okCard okAsset s \<Longrightarrow> hookStep okCard okAsset s s'
           \<Longrightarrow> hookReachable okCard okAsset s'"

text \<open>
  What holds of the assets in every state of a game in which only assets of the AI that are
  not destroyed are selected: distinct instance ids, damage counts that mirror the states,
  and a selection that is such an asset of the current state.
\<close>

definition assetsInv :: "GameState \<Rightarrow> bool" where
  "assetsInv s =
     (distinct (map assetInstanceId (assets (player s))) \<and>
      distinct (map assetInstanceId (assets (ai s))) \<and>
      damageMirrorsState (assets (player s)) \<and>
      damageMirrorsState (assets (ai s)) \<and>
      (case selectedAsset s of None \<Rightarrow> True | Some t \<Rightarrow> liveTarget s t))"

text \<open>
  What holds of the cards in every state of a game in which only cards of the player's attack
  hand are selected: 21 attack cards and 21 defense cards, hands without a repeated instance
  id, and a selected card that is in the player's attack hand.
\<close>

definition handsDistinct :: "GameState \<Rightarrow> bool" where
  "handsDistinct s =
     (distinct (map instanceId (taHand (player s))) \<and> distinct (map instanceId (dcHand (player s))) \<and>
      distinct (map instanceId (taHand (ai s))) \<and> distinct (map instanceId (dcHand (ai s))))"

definition cardsInv :: "GameState \<Rightarrow> bool" where
  "cardsInv s =
     (attackCards s = 21 \<and> defenseCards s = 21 \<and> handsDistinct s \<and>
      (case selectedCard s of None \<Rightarrow> True | Some c \<Rightarrow> ownAttackCard s c))"

section \<open>Example states\<close>

text \<open>
  An environment whose draws are all \<open>r\<close> and whose instance ids are the texts
  \<open>k...kj...j\<close> (\<open>k + 1\<close> and \<open>j + 1\<close> letters).
\<close>

definition envWith :: "real \<Rightarrow> Env" where
  "envWith r =
     \<lparr> cardIdCounter = 0,
       rndShuffle = (\<lambda>n i. 0),
       rnd = (\<lambda>k j. r),
       newId = (\<lambda>k j. replicate (Suc k) (CHR ''k'') @ replicate (Suc j) (CHR ''j'')) \<rparr>"

text \<open>
  The same environment for the calls after the deal: its instance ids begin with \<open>n\<close>, those
  of the cards dealt with \<open>envWith\<close> begin with \<open>k\<close>.
\<close>

definition envLater :: "real \<Rightarrow> Env" where
  "envLater r = (envWith r)\<lparr> newId := (\<lambda>k j. CHR ''n'' # newId (envWith r) k j) \<rparr>"

definition jackOfHearts :: CyberAsset where
  "jackOfHearts = \<lparr> assetInstanceId = ''asset-1'',
                    assetCard = \<lparr>assetCardId = 11, assetSuit = TA hearts, faceType = jack\<rparr>,
                    state = facedown, damageCount = 0 \<rparr>"

definition queenOfHearts :: CyberAsset where
  "queenOfHearts = \<lparr> assetInstanceId = ''asset-2'',
                     assetCard = \<lparr>assetCardId = 12, assetSuit = TA hearts, faceType = queen\<rparr>,
                     state = facedown, damageCount = 0 \<rparr>"

definition kingOfHearts :: CyberAsset where
  "kingOfHearts = \<lparr> assetInstanceId = ''asset-3'',
                    assetCard = \<lparr>assetCardId = 13, assetSuit = TA hearts, faceType = king\<rparr>,
                    state = facedown, damageCount = 0 \<rparr>"

definition jackOfSpades :: CyberAsset where
  "jackOfSpades = \<lparr> assetInstanceId = ''asset-4'',
                    assetCard = \<lparr>assetCardId = 37, assetSuit = DC spades, faceType = jack\<rparr>,
                    state = facedown, damageCount = 0 \<rparr>"

definition queenOfSpades :: CyberAsset where
  "queenOfSpades = \<lparr> assetInstanceId = ''asset-5'',
                     assetCard = \<lparr>assetCardId = 38, assetSuit = DC spades, faceType = queen\<rparr>,
                     state = facedown, damageCount = 0 \<rparr>"

definition kingOfSpades :: CyberAsset where
  "kingOfSpades = \<lparr> assetInstanceId = ''asset-6'',
                    assetCard = \<lparr>assetCardId = 39, assetSuit = DC spades, faceType = king\<rparr>,
                    state = facedown, damageCount = 0 \<rparr>"

definition fiveOfHearts :: HandCard where
  "fiveOfHearts = \<lparr>instanceId = ''p-ta-1'', card = ThreatAgentCard 5 hearts 5\<rparr>"

definition sevenOfDiamonds :: HandCard where
  "sevenOfDiamonds = \<lparr>instanceId = ''p-ta-2'', card = ThreatAgentCard 20 diamonds 7\<rparr>"

definition threeOfSpades :: HandCard where
  "threeOfSpades = \<lparr>instanceId = ''p-dc-1'', card = DefenseControlCard 29 spades 3\<rparr>"

definition fiveOfSpades :: HandCard where
  "fiveOfSpades = \<lparr>instanceId = ''a-dc-1'', card = DefenseControlCard 31 spades 5\<rparr>"

definition nineOfClubs :: HandCard where
  "nineOfClubs = \<lparr>instanceId = ''a-dc-2'', card = DefenseControlCard 48 clubs 9\<rparr>"

definition threeOfHearts :: HandCard where
  "threeOfHearts = \<lparr>instanceId = ''a-ta-1'', card = ThreatAgentCard 3 hearts 3\<rparr>"

definition eightOfDiamonds :: HandCard where
  "eightOfDiamonds = \<lparr>instanceId = ''a-ta-2'', card = ThreatAgentCard 21 diamonds 8\<rparr>"

text \<open>
  The player is about to attack the AI's jack of hearts with the five of hearts; the AI
  holds the five of spades.
\<close>

definition blockScene :: GameState where
  "blockScene =
     \<lparr> phase = attack_phase,
       currentAttacker = Player,
       difficulty = Some brutal,
       player = \<lparr> assets = [jackOfSpades, queenOfSpades, kingOfSpades],
                  taHand = [fiveOfHearts, sevenOfDiamonds], dcHand = [threeOfSpades],
                  taDiscard = [], dcDiscard = [], successfulDefenses = 0 \<rparr>,
       ai = \<lparr> assets = [jackOfHearts, queenOfHearts, kingOfHearts],
              taHand = [threeOfHearts, eightOfDiamonds], dcHand = [nineOfClubs, fiveOfSpades],
              taDiscard = [], dcDiscard = [], successfulDefenses = 0 \<rparr>,
       taDeck = [ThreatAgentCard 1 hearts 1, ThreatAgentCard 2 hearts 2, ThreatAgentCard 4 hearts 4],
       dcDeck = [DefenseControlCard 27 spades 1, DefenseControlCard 28 spades 2,
                 DefenseControlCard 30 spades 4],
       attackState = None,
       turnNumber = 1,
       cardsDrawnThisGame = 20,
       lastAction = None,
       actionLog = [],
       selectedCard = Some fiveOfHearts,
       selectedAsset = Some jackOfHearts,
       animation = anim_none,
       coinFlipResult = Some Player \<rparr>"

text \<open>
  The same, but two assets of the AI are destroyed already and the AI has defended five
  times: after the block, the second and the fourth win condition hold together.
\<close>

definition priorityScene :: GameState where
  "priorityScene =
     blockScene\<lparr> ai := (ai blockScene)
                   \<lparr> assets := [jackOfHearts,
                                 queenOfHearts\<lparr>state := destroyed, damageCount := 3\<rparr>,
                                 kingOfHearts\<lparr>state := destroyed, damageCount := 3\<rparr>],
                     successfulDefenses := 5 \<rparr> \<rparr>"

definition eightOfClubs :: HandCard where
  "eightOfClubs = \<lparr>instanceId = ''p-dc-2'', card = DefenseControlCard 47 clubs 8\<rparr>"

text \<open>
  The player ends the turn holding a defense card for each attack card of the AI, and with
  a rotated asset, which the AI's policy always goes on attacking.
\<close>

definition aiTurnScene :: GameState where
  "aiTurnScene =
     blockScene\<lparr> player := (player blockScene)
                   \<lparr> assets := [jackOfSpades\<lparr>state := rotated, damageCount := 2\<rparr>,
                                 queenOfSpades, kingOfSpades],
                     dcHand := [threeOfSpades, eightOfClubs] \<rparr>,
                 difficulty := Some hard \<rparr>"

text \<open>The same state at the start of the AI's turn.\<close>

definition aiAttacksScene :: GameState where
  "aiAttacksScene = aiTurnScene\<lparr>currentAttacker := AI\<rparr>"

text \<open>
  A game from its start: the deck is generated and dealt, the difficulty is chosen, the coin
  makes the player the attacker. Then the player selects the first card of the hand and the
  AI's first asset and attacks, four times, and the AI never defends (its draw is 0.99).
  In another continuation the player ends the turn after the first attack, and the AI plays
  its turn.
\<close>

definition openingState :: GameState where
  "openingState = projr (performCoinFlip (envLater 0) False (setDifficulty hard (initializeGame (envWith 0))))"

definition picked :: "GameState \<Rightarrow> GameState" where
  "picked s = selectAsset (first (assets (ai s))) (selectCard (first (taHand (player s))) s)"

definition attackFirst :: "GameState \<Rightarrow> GameState" where
  "attackFirst s = playerAttack (envLater 0.99) False (picked s)"

text \<open>The player attacks again with the card played in the first attack of the game.\<close>

definition playedAgain :: "GameState \<Rightarrow> GameState" where
  "playedAgain s =
     playerAttack (envLater 0.99) False
       (selectAsset (first (assets (ai s))) (selectCard (first (taHand (player openingState))) s))"

definition afterTurn :: GameState where
  "afterTurn = projr (endTurn (envLater 0.99) False (attackFirst openingState))"

definition thirdHit :: GameState where
  "thirdHit = attackFirst (attackFirst (attackFirst openingState))"

definition fourthHit :: GameState where
  "fourthHit = attackFirst thirdHit"

text \<open>
  The AI's turn against a player without defense cards, who has a destroyed and a rotated
  asset.
\<close>

definition aiHitsScene :: GameState where
  "aiHitsScene =
     aiAttacksScene\<lparr> player := (player aiAttacksScene)
                        \<lparr> assets := [jackOfSpades\<lparr>state := destroyed, damageCount := 3\<rparr>,
                                      queenOfSpades\<lparr>state := rotated, damageCount := 2\<rparr>,
                                      kingOfSpades],
                          dcHand := [] \<rparr> \<rparr>"

text \<open>
  The player has selected an asset of the AI that is destroyed; the AI holds no card against
  the five of hearts.
\<close>

definition destroyedScene :: GameState where
  "destroyedScene =
     blockScene\<lparr> ai := (ai blockScene)
                   \<lparr> assets := [jackOfHearts\<lparr>state := destroyed, damageCount := 3\<rparr>,
                                 queenOfHearts, kingOfHearts],
                     dcHand := [nineOfClubs] \<rparr>,
                 selectedAsset := Some (jackOfHearts\<lparr>state := destroyed, damageCount := 3\<rparr>) \<rparr>"

text \<open>Three assets of the player in different states.\<close>

definition sampleAssets :: "CyberAsset list" where
  "sampleAssets = [jackOfSpades\<lparr>state := revealed, damageCount := 1\<rparr>,
                   queenOfSpades\<lparr>state := destroyed, damageCount := 3\<rparr>,
                   kingOfSpades\<lparr>state := rotated, damageCount := 2\<rparr>]"

section \<open>Facts about the parts of the operations\<close>

lemma playerAttackStart_frame [simp]:
  "player (playerAttackStart c t s) = player s"
  "ai (playerAttackStart c t s) = ai s"
  "taDeck (playerAttackStart c t s) = taDeck s"
  "dcDeck (playerAttackStart c t s) = dcDeck s"
  "currentAttacker (playerAttackStart c t s) = currentAttacker s"
  "difficulty (playerAttackStart c t s) = difficulty s"
  "turnNumber (playerAttackStart c t s) = turnNumber s"
  "selectedCard (playerAttackStart c t s) = None"
  "selectedAsset (playerAttackStart c t s) = None"
  "phase (playerAttackStart c t s) = defense_phase"
  by (simp_all add: playerAttackStart_def)

lemma playerAttackBlocked_frame [simp]:
  "phase (playerAttackBlocked e c d s) = attack_phase"
  "currentAttacker (playerAttackBlocked e c d s) = currentAttacker s"
  "difficulty (playerAttackBlocked e c d s) = difficulty s"
  "taDeck (playerAttackBlocked e c d s) = taDeck s"
  "turnNumber (playerAttackBlocked e c d s) = turnNumber s"
  "selectedCard (playerAttackBlocked e c d s) = selectedCard s"
  "selectedAsset (playerAttackBlocked e c d s) = selectedAsset s"
  "attackState (playerAttackBlocked e c d s) = None"
  "player (playerAttackBlocked e c d s) =
     (player s)\<lparr>taHand := withoutCard c (taHand (player s)), taDiscard := taDiscard (player s) @ [card c]\<rparr>"
  "ai (playerAttackBlocked e c d s) =
     (ai s)\<lparr>dcHand := fst (drawToHandSize (newId e 0) (withoutCard d (dcHand (ai s))) (dcDeck s)
                           (length (withoutCard d (dcHand (ai s))) + 2)),
            dcDiscard := dcDiscard (ai s) @ [card d],
            successfulDefenses := successfulDefenses (ai s) + 1\<rparr>"
  "dcDeck (playerAttackBlocked e c d s) =
     snd (drawToHandSize (newId e 0) (withoutCard d (dcHand (ai s))) (dcDeck s)
            (length (withoutCard d (dcHand (ai s))) + 2))"
  by (simp_all add: playerAttackBlocked_def Let_def split_beta)

lemma playerAttackHit_frame [simp]:
  "phase (playerAttackHit c t s) = attack_phase"
  "currentAttacker (playerAttackHit c t s) = currentAttacker s"
  "difficulty (playerAttackHit c t s) = difficulty s"
  "taDeck (playerAttackHit c t s) = taDeck s"
  "dcDeck (playerAttackHit c t s) = dcDeck s"
  "turnNumber (playerAttackHit c t s) = turnNumber s"
  "selectedCard (playerAttackHit c t s) = selectedCard s"
  "selectedAsset (playerAttackHit c t s) = selectedAsset s"
  "attackState (playerAttackHit c t s) = None"
  "player (playerAttackHit c t s) =
     (player s)\<lparr>taHand := withoutCard c (taHand (player s)), taDiscard := taDiscard (player s) @ [card c]\<rparr>"
  "ai (playerAttackHit c t s) =
     (case findIndex (\<lambda>a. assetInstanceId a = assetInstanceId t) (assets (ai s)) of
        None \<Rightarrow> ai s
      | Some i \<Rightarrow> (ai s)\<lparr>assets := damageAt i t (assets (ai s))\<rparr>)"
  by (simp_all add: playerAttackHit_def Let_def split: option.splits)

lemma applyWin_frame [simp]:
  "player (applyWin s) = player s"
  "ai (applyWin s) = ai s"
  "taDeck (applyWin s) = taDeck s"
  "dcDeck (applyWin s) = dcDeck s"
  "currentAttacker (applyWin s) = currentAttacker s"
  "difficulty (applyWin s) = difficulty s"
  "turnNumber (applyWin s) = turnNumber s"
  "selectedCard (applyWin s) = selectedCard s"
  "selectedAsset (applyWin s) = selectedAsset s"
  "attackState (applyWin s) = attackState s"
  "phase (applyWin s) = (case getWinReason s of None \<Rightarrow> phase s | Some p \<Rightarrow> p)"
  by (simp_all add: applyWin_def split: option.splits)

text \<open>The state after a call of \<open>playerAttack\<close> that passes the four tests at its start.\<close>

lemma playerAttack_resolved:
  assumes "selectedCard s = Some c" "selectedAsset s = Some t"
    "phase s = attack_phase" "currentAttacker s = Player"
  shows "playerAttack e False s =
     (applyWin (case decCard (aiChooseDefense (rnd e 0 0) (dcHand (ai s)) (card c) (orHard (difficulty s))) of
                  Some d \<Rightarrow> playerAttackBlocked e c d (playerAttackStart c t s)
                | None \<Rightarrow> playerAttackHit c t (playerAttackStart c t s)))\<lparr>animation := anim_none\<rparr>"
  using assms by (simp add: playerAttack_def Let_def)

lemmas win_consts = ASSETS_TO_WIN_def DEFENSES_TO_WIN_def

lemma getWinReason_first: "getWinReason s = firstSatisfied (winConditions s)"
  by (simp add: getWinReason_def winConditions_def firstSatisfied_def Let_def win_consts)

lemma checkWinCondition_first:
  "checkWinCondition s = (case firstSatisfied (winConditions s) of Some p \<Rightarrow> p | None \<Rightarrow> phase s)"
  by (simp add: checkWinCondition_def winConditions_def firstSatisfied_def Let_def win_consts)

lemma winConditions_cong:
  "player s' = player s \<Longrightarrow> ai s' = ai s \<Longrightarrow> winConditions s' = winConditions s"
  by (simp add: winConditions_def)

text \<open>The first element of a sorted list is least in the order sorted by.\<close>

lemma first_sort_by_least:
  assumes refl: "\<And>a. cmp a a \<le> 0"
    and trans: "\<And>a b c. cmp a b \<le> 0 \<Longrightarrow> cmp b c \<le> 0 \<Longrightarrow> cmp a c \<le> 0"
    and total: "\<And>a b. cmp a b \<le> 0 \<or> cmp b a \<le> 0"
  shows "first (sort_by cmp xs) = Some h \<Longrightarrow> x \<in> set xs \<Longrightarrow> cmp h x \<le> 0"
proof (induction xs arbitrary: h x)
  case Nil
  then show ?case by simp
next
  case (Cons y ys)
  have unfold: "sort_by cmp (y # ys) = insert_by cmp y (sort_by cmp ys)"
    by (simp add: sort_by_def)
  show ?case
  proof (cases "sort_by cmp ys")
    case Nil
    then have "ys = []" using set_sort_by[of cmp ys] by simp
    with Cons.prems unfold Nil show ?thesis by (simp add: refl)
  next
    case (Cons z zs)
    then have fz: "first (sort_by cmp ys) = Some z" by simp
    have least_z: "\<And>w. w \<in> set ys \<Longrightarrow> cmp z w \<le> 0"
      using Cons.IH[OF fz] by blast
    show ?thesis
    proof (cases "cmp y z \<le> 0")
      case True
      then have "h = y" using Cons.prems(1) unfold Cons by simp
      then show ?thesis using Cons.prems(2) True least_z refl trans by auto
    next
      case False
      then have hz: "h = z" using Cons.prems(1) unfold Cons by simp
      from False total[of y z] have "cmp z y \<le> 0" by simp
      then show ?thesis using hz Cons.prems(2) least_z by auto
    qed
  qed
qed

lemma targetOrder_le_iff:
  "targetOrder a b \<le> 0 \<longleftrightarrow>
     stateRank (state b) < stateRank (state a) \<or>
     (stateRank (state b) = stateRank (state a) \<and> damageCount b \<le> damageCount a)"
  by (auto simp: targetOrder_def Let_def)

text \<open>Drawing cards, the AI's defense card, and removing a card from a hand.\<close>

lemma mapHandCards_shift:
  "mapHandCards (\<lambda>n. gen (Suc n)) k cs = mapHandCards gen (Suc k) cs"
  by (induction cs arbitrary: k) auto

lemma drawToHandSize_eq:
  "drawToHandSize gen h deck t =
     (h @ mapHandCards gen 0 (take (t - length h) deck), drop (t - length h) deck)"
proof (induction deck arbitrary: gen h)
  case Nil
  then show ?case by simp
next
  case (Cons c deck)
  show ?case
  proof (cases "length h < t")
    case True
    then obtain m where m: "t - length h = Suc m" by (cases "t - length h") auto
    then have m': "t - Suc (length h) = m" by simp
    show ?thesis using True Cons.IH[of "\<lambda>n. gen (Suc n)" "h @ [createHandCard (gen 0) c]"]
      by (simp add: m m' mapHandCards_shift)
  next
    case False
    then show ?thesis by simp
  qed
qed

lemma drawToHandSize_plus:
  "drawToHandSize gen h deck (length h + m) =
     (h @ mapHandCards gen 0 (take m deck), drop m deck)"
  by (simp add: drawToHandSize_eq)

lemma length_mapHandCards [simp]: "length (mapHandCards gen k cs) = length cs"
  by (induction cs arbitrary: k) auto

lemma drawToHandSize_two:
  "drawToHandSize gen h deck (Suc (Suc (length h))) =
     (h @ mapHandCards gen 0 (take 2 deck), drop 2 deck)"
  using drawToHandSize_plus[of gen h deck 2] by simp

lemma find_SomeD: "find P xs = Some x \<Longrightarrow> x \<in> set xs \<and> P x"
  by (induction xs) (auto split: if_splits)

lemma aiChooseDefense_valid:
  assumes "decCard (aiChooseDefense r h a diff) = Some d"
  shows "d \<in> set h \<and> canDefend a (card d)"
proof -
  let ?v = "filter (\<lambda>hc. canDefend a (card hc)) h"
  from assms have "d \<in> set ?v"
    by (auto simp: aiChooseDefense_def Let_def split: if_splits dest!: first_Some_mem find_SomeD)
  then show ?thesis by simp
qed

lemma withoutCard_absent:
  "instanceId c \<notin> instanceId ` set h \<Longrightarrow> withoutCard c h = h"
  unfolding withoutCard_def by (induction h) auto

lemma length_withoutCard_distinct:
  "distinct (map instanceId h) \<Longrightarrow> c \<in> set h \<Longrightarrow> Suc (length (withoutCard c h)) = length h"
proof (induction h)
  case Nil
  then show ?case by simp
next
  case (Cons x h)
  show ?case
  proof (cases "x = c")
    case True
    with Cons.prems have "withoutCard c h = h" by (intro withoutCard_absent) simp
    with True show ?thesis by (simp add: withoutCard_def)
  next
    case False
    with Cons have "c \<in> set h" "instanceId x \<noteq> instanceId c" by auto
    with Cons show ?thesis by (simp add: withoutCard_def)
  qed
qed

lemma withoutCard_not_mem: "c \<notin> set (withoutCard c h)"
  by (simp add: withoutCard_def)

text \<open>The parts of the AI's turn.\<close>

lemma aiAttackStart_frame [simp]:
  "phase (aiAttackStart a t s) = phase s"
  "player (aiAttackStart a t s) = player s"
  "ai (aiAttackStart a t s) = ai s"
  "taDeck (aiAttackStart a t s) = taDeck s"
  "dcDeck (aiAttackStart a t s) = dcDeck s"
  "currentAttacker (aiAttackStart a t s) = currentAttacker s"
  "difficulty (aiAttackStart a t s) = difficulty s"
  "turnNumber (aiAttackStart a t s) = turnNumber s"
  "selectedCard (aiAttackStart a t s) = selectedCard s"
  "selectedAsset (aiAttackStart a t s) = selectedAsset s"
  by (simp_all add: aiAttackStart_def)

lemma aiAttackBlocked_frame [simp]:
  "phase (aiAttackBlocked e k a d s) = phase s"
  "currentAttacker (aiAttackBlocked e k a d s) = currentAttacker s"
  "difficulty (aiAttackBlocked e k a d s) = difficulty s"
  "taDeck (aiAttackBlocked e k a d s) = taDeck s"
  "turnNumber (aiAttackBlocked e k a d s) = turnNumber s"
  "selectedCard (aiAttackBlocked e k a d s) = selectedCard s"
  "selectedAsset (aiAttackBlocked e k a d s) = selectedAsset s"
  "ai (aiAttackBlocked e k a d s) =
     (ai s)\<lparr>taHand := withoutCard a (taHand (ai s)), taDiscard := taDiscard (ai s) @ [card a]\<rparr>"
  "player (aiAttackBlocked e k a d s) =
     (player s)\<lparr>dcHand := withoutCard d (dcHand (player s)) @ mapHandCards (newId e (k + 2)) 0 (take 2 (dcDeck s)),
                dcDiscard := dcDiscard (player s) @ [card d],
                successfulDefenses := successfulDefenses (player s) + 1\<rparr>"
  "dcDeck (aiAttackBlocked e k a d s) = drop 2 (dcDeck s)"
  by (simp_all add: aiAttackBlocked_def Let_def split_beta drawToHandSize_two)

lemma aiAttackHit_frame [simp]:
  "phase (aiAttackHit a t s) = phase s"
  "currentAttacker (aiAttackHit a t s) = currentAttacker s"
  "difficulty (aiAttackHit a t s) = difficulty s"
  "taDeck (aiAttackHit a t s) = taDeck s"
  "dcDeck (aiAttackHit a t s) = dcDeck s"
  "turnNumber (aiAttackHit a t s) = turnNumber s"
  "selectedCard (aiAttackHit a t s) = selectedCard s"
  "selectedAsset (aiAttackHit a t s) = selectedAsset s"
  "ai (aiAttackHit a t s) =
     (ai s)\<lparr>taHand := withoutCard a (taHand (ai s)), taDiscard := taDiscard (ai s) @ [card a]\<rparr>"
  "player (aiAttackHit a t s) =
     (case findIndex (\<lambda>x. assetInstanceId x = assetInstanceId t) (assets (player s)) of
        None \<Rightarrow> player s
      | Some i \<Rightarrow> (player s)\<lparr>assets := damageAt i t (assets (player s))\<rparr>)"
  by (simp_all add: aiAttackHit_def Let_def split: option.splits)

lemma aiWinCheck_frame [simp]:
  "player (snd (aiWinCheck c s)) = player s"
  "ai (snd (aiWinCheck c s)) = ai s"
  "taDeck (snd (aiWinCheck c s)) = taDeck s"
  "dcDeck (snd (aiWinCheck c s)) = dcDeck s"
  "currentAttacker (snd (aiWinCheck c s)) = currentAttacker s"
  "difficulty (snd (aiWinCheck c s)) = difficulty s"
  "turnNumber (snd (aiWinCheck c s)) = turnNumber s"
  "selectedCard (snd (aiWinCheck c s)) = selectedCard s"
  "selectedAsset (snd (aiWinCheck c s)) = selectedAsset s"
  by (simp_all add: aiWinCheck_def Let_def)

lemma aiWinCheck_flag: "fst (aiWinCheck c s) \<Longrightarrow> c"
  by (simp add: aiWinCheck_def Let_def split: if_splits)

text \<open>The three ways a pass of the AI's turn ends.\<close>

lemma aiTurnPass_cases:
  assumes "aiTurnPass e k diff s = Inr (c, s')"
  obtains
    (idle) "c = False" "s' = addLogToState s \<lparr>actor = AI, action = ''No Attack''\<rparr>"
  | (blocked) t a d where
      "aiChooseTarget (assets (player s)) = Some t" "a \<in> set (taHand (ai s))"
      "find (\<lambda>hc. canDefend (card a) (card hc)) (dcHand (player s)) = Some d"
      "c = False" "s' = snd (aiWinCheck False (aiAttackBlocked e k a d (aiAttackStart a t s)))"
  | (hit) t a where
      "aiChooseTarget (assets (player s)) = Some t" "a \<in> set (taHand (ai s))"
      "find (\<lambda>hc. canDefend (card a) (card hc)) (dcHand (player s)) = None"
      "s' = snd (aiWinCheck c (aiAttackHit a t (aiAttackStart a t s))) \<or>
       s' = snd (aiWinCheck True (aiAttackHit a t (aiAttackStart a t s)))"
proof (cases "aiChooseTarget (assets (player s))")
  case None
  with assms idle show ?thesis by (simp add: aiTurnPass_def)
next
  case (Some t)
  show ?thesis
  proof (cases "aiChooseAttackCard (rnd e (k + 2) 0) (taHand (ai s)) t (dcHand (player s)) diff")
    case (Inl err)
    with assms Some show ?thesis by (simp add: aiTurnPass_def)
  next
    case (Inr dec)
    show ?thesis
    proof (cases "decCard dec")
      case None
      with assms Some Inr idle show ?thesis by (simp add: aiTurnPass_def)
    next
      case (Some a)
      from aiChooseAttackCard_mem[OF Inr Some] have am: "a \<in> set (taHand (ai s))" .
      show ?thesis
      proof (cases "find (\<lambda>hc. canDefend (card a) (card hc)) (dcHand (player s))")
        case None
        let ?s2 = "aiAttackHit a t (aiAttackStart a t s)"
        from assms \<open>aiChooseTarget (assets (player s)) = Some t\<close> Inr Some None
        have r: "(c, s') = aiWinCheck (decAction (aiDecideContinueOrEnd (rnd e (k + 2) 1) (taHand (ai ?s2)) 0
                                               (assets (player ?s2)) diff) = act_attack) ?s2"
          by (simp add: aiTurnPass_def Let_def)
        have "s' = snd (aiWinCheck c ?s2) \<or> s' = snd (aiWinCheck True ?s2)"
          using r by (auto simp: aiWinCheck_def Let_def split: if_splits)
        with hit[OF \<open>aiChooseTarget (assets (player s)) = Some t\<close> am None] show ?thesis by blast
      next
        case (Some d)
        from assms \<open>aiChooseTarget (assets (player s)) = Some t\<close> Inr \<open>decCard dec = Some a\<close> Some
        have r: "(c, s') = aiWinCheck False (aiAttackBlocked e k a d (aiAttackStart a t s))"
          by (simp add: aiTurnPass_def Let_def)
        then have "c = False" "s' = snd (aiWinCheck False (aiAttackBlocked e k a d (aiAttackStart a t s)))"
          by (auto simp: aiWinCheck_def Let_def split: if_splits)
        with blocked[OF \<open>aiChooseTarget (assets (player s)) = Some t\<close> am Some] show ?thesis by blast
      qed
    qed
  qed
qed

text \<open>A property of flag and state that every pass keeps holds when the loop ends.\<close>

lemma executeAITurn_loop_invariant:
  assumes "executeAITurn_loop e diff k c s = Inr s'"
    and "Q k c s"
    and "\<And>k s c' s1. Q k True s \<Longrightarrow> phase s = attack_phase \<Longrightarrow> aiTurnPass e k diff s = Inr (c', s1)
            \<Longrightarrow> Q (Suc k) c' s1"
  shows "\<exists>k' c'. Q k' c' s'"
  using assms
proof (induction e diff k c s rule: executeAITurn_loop.induct)
  case (1 e diff k c s)
  show ?case
  proof (cases "c \<and> phase s = attack_phase")
    case False
    with "1.prems"(1,2) show ?thesis by (auto simp: executeAITurn_loop.simps)
  next
    case True
    then have "(case aiTurnPass e k diff s of Inl err \<Rightarrow> Inl err
                | Inr (c1, s1) \<Rightarrow> executeAITurn_loop e diff (Suc k) c1 s1) = Inr s'"
      using "1.prems"(1) by (subst (asm) executeAITurn_loop.simps) simp
    then obtain c1 s1 where p: "aiTurnPass e k diff s = Inr (c1, s1)"
      and r: "executeAITurn_loop e diff (Suc k) c1 s1 = Inr s'"
      by (auto split: sum.splits)
    have q: "Q (Suc k) c1 s1" using "1.prems"(3)[OF _ _ p] "1.prems"(2) True by simp
    show ?thesis
    proof (rule "1.IH"[OF True p refl r q])
      fix k s c' s1
      assume "Q k True s" "phase s = attack_phase" "aiTurnPass e k diff s = Inr (c', s1)"
      then show "Q (Suc k) c' s1" by (rule "1.prems"(3))
    qed
  qed
qed

text \<open>The end of the AI's turn, and what a pass leaves as it was.\<close>

lemma executeAITurn_result:
  assumes "executeAITurn e s = Inr s'"
  obtains n where "executeAITurn_loop e (orHard (difficulty s)) 0 True s = Inr n"
    and "s' = (if phase n = attack_phase
               then n\<lparr> ai := (ai n)\<lparr>taHand := taHand (ai n) @ mapHandCards (newId e 1) 0 (take 2 (taDeck n))\<rparr>,
                        taDeck := drop 2 (taDeck n),
                        currentAttacker := Player,
                        turnNumber := turnNumber n + 1 \<rparr>
               else n)\<lparr>animation := anim_none\<rparr>"
  using assms
  by (auto simp: executeAITurn_def Let_def drawToHandSize_two split: sum.splits if_splits)

lemma aiTurnPass_turn_frame:
  assumes "aiTurnPass e k diff s = Inr (c, s')"
  shows "turnNumber s' = turnNumber s \<and> currentAttacker s' = currentAttacker s \<and>
         difficulty s' = difficulty s \<and> selectedCard s' = selectedCard s \<and>
         selectedAsset s' = selectedAsset s \<and> taDeck s' = taDeck s \<and>
         assets (ai s') = assets (ai s) \<and> dcHand (ai s') = dcHand (ai s) \<and>
         dcDiscard (ai s') = dcDiscard (ai s) \<and> successfulDefenses (ai s') = successfulDefenses (ai s) \<and>
         taHand (player s') = taHand (player s) \<and> taDiscard (player s') = taDiscard (player s)"
  using assms by (cases rule: aiTurnPass_cases) (auto split: option.splits)

lemma aiTurnPass_defenses:
  assumes "aiTurnPass e k diff s = Inr (c, s')"
  shows "successfulDefenses (player s') = successfulDefenses (player s) \<or>
         (successfulDefenses (player s') = successfulDefenses (player s) + 1 \<and> \<not> c)"
  using assms by (cases rule: aiTurnPass_cases) (auto split: option.splits)

text \<open>Assets found by instance id, and damage to them.\<close>

lemma staysDestroyed_nth:
  "staysDestroyed as as' \<longleftrightarrow>
     length as' = length as \<and> (\<forall>i<length as. state (as ! i) = destroyed \<longrightarrow> state (as' ! i) = destroyed)"
  by (auto simp: staysDestroyed_def list_all_length)

lemma staysDestroyed_refl [simp]: "staysDestroyed as as"
  by (simp add: staysDestroyed_nth)

lemma staysDestroyed_trans:
  "staysDestroyed as bs \<Longrightarrow> staysDestroyed bs cs \<Longrightarrow> staysDestroyed as cs"
  by (simp add: staysDestroyed_nth)

lemma findIndex_SomeD:
  "findIndex p xs = Some i \<Longrightarrow> i < length xs \<and> p (xs ! i) \<and> (\<forall>j<i. \<not> p (xs ! j))"
proof (induction xs arbitrary: i)
  case Nil
  then show ?case by simp
next
  case (Cons x xs)
  show ?case
  proof (cases "p x")
    case True
    with Cons.prems show ?thesis by simp
  next
    case False
    with Cons.prems obtain j where j: "findIndex p xs = Some j" "i = Suc j" by auto
    from Cons.IH[OF j(1)] False j(2) show ?thesis by (auto simp: less_Suc_eq_0_disj)
  qed
qed

lemma findIndex_None_iff: "findIndex p xs = None \<longleftrightarrow> (\<forall>x\<in>set xs. \<not> p x)"
  by (induction xs) auto

lemma findIndex_distinct:
  assumes "distinct (map assetInstanceId as)" and "t \<in> set as"
  shows "\<exists>i. findIndex (\<lambda>a. assetInstanceId a = assetInstanceId t) as = Some i \<and> i < length as \<and> as ! i = t"
proof -
  from assms(2) have "findIndex (\<lambda>a. assetInstanceId a = assetInstanceId t) as \<noteq> None"
    by (auto simp: findIndex_None_iff)
  then obtain i where i: "findIndex (\<lambda>a. assetInstanceId a = assetInstanceId t) as = Some i" by auto
  from findIndex_SomeD[OF i] have il: "i < length as" and id: "assetInstanceId (as ! i) = assetInstanceId t"
    by auto
  from assms(2) obtain j where j: "j < length as" "as ! j = t" by (auto simp: in_set_conv_nth)
  have "i = j"
    using assms(1) il j id by (auto simp: distinct_conv_nth)
  with i il j show ?thesis by auto
qed

lemma damageAt_simps [simp]:
  "length (damageAt i t as) = length as"
  "map assetInstanceId (damageAt i t as) = map assetInstanceId as"
  "map assetCard (damageAt i t as) = map assetCard as"
  by (cases "i < length as"; simp add: damageAt_def map_update list_update_same_conv list_update_beyond)+

lemma damageAt_nth:
  "j < length as \<Longrightarrow> damageAt i t as ! j =
     (if j = i then (as ! i)\<lparr>state := getNextAssetState (state t), damageCount := damageCount (as ! i) + 1\<rparr>
      else as ! j)"
  by (simp add: damageAt_def)

text \<open>Damage by a target record that shows the state of the asset keeps destroyed assets destroyed.\<close>

lemma staysDestroyed_damageAt:
  assumes "i < length as" and "state (as ! i) = destroyed \<longrightarrow> state t = destroyed \<or> state t = rotated"
  shows "staysDestroyed as (damageAt i t as)"
  using assms by (auto simp: staysDestroyed_nth damageAt_nth)


lemma aiChooseTarget_SomeD:
  assumes "aiChooseTarget as = Some t"
  shows "t \<in> set as \<and> state t \<noteq> destroyed"
proof -
  from assms have "first (sort_by targetOrder (filter (\<lambda>a. state a \<noteq> destroyed) as)) = Some t"
    by (simp add: aiChooseTarget_def Let_def split: if_splits)
  from first_Some_mem[OF this] show ?thesis by (simp add: set_sort_by)
qed

text \<open>What a pass of the AI's turn and an attack of the player do to the assets.\<close>

lemma aiTurnPass_assets:
  assumes "aiTurnPass e k diff s = Inr (c, s')" and "distinct (map assetInstanceId (assets (player s)))"
  shows "assets (ai s') = assets (ai s) \<and>
         (assets (player s') = assets (player s) \<or>
          (\<exists>i. i < length (assets (player s)) \<and> state (assets (player s) ! i) \<noteq> destroyed \<and>
               assets (player s') = damageAt i (assets (player s) ! i) (assets (player s))))"
  using assms(1)
proof (cases rule: aiTurnPass_cases)
  case idle
  then show ?thesis by simp
next
  case (blocked t a d)
  then show ?thesis by simp
next
  case (hit t a)
  from aiChooseTarget_SomeD[OF hit(1)] have t: "t \<in> set (assets (player s))" "state t \<noteq> destroyed" by auto
  from findIndex_distinct[OF assms(2) t(1)] obtain i where
    i: "findIndex (\<lambda>a. assetInstanceId a = assetInstanceId t) (assets (player s)) = Some i"
       "i < length (assets (player s))" "assets (player s) ! i = t" by auto
  from hit(4) have "assets (ai s') = assets (ai s) \<and>
      assets (player s') = damageAt i t (assets (player s))"
    using i(1) by auto
  with i t show ?thesis by auto
qed

lemma playerAttack_assets:
  "assets (player (playerAttack e p s)) = assets (player s) \<and>
   (assets (ai (playerAttack e p s)) = assets (ai s) \<or>
    (\<exists>i t. selectedAsset s = Some t \<and>
       findIndex (\<lambda>a. assetInstanceId a = assetInstanceId t) (assets (ai s)) = Some i \<and>
       assets (ai (playerAttack e p s)) = damageAt i t (assets (ai s))))"
proof (cases "\<not> p \<and> selectedCard s \<noteq> None \<and> selectedAsset s \<noteq> None \<and> phase s = attack_phase
              \<and> currentAttacker s = Player")
  case False
  then have "playerAttack e p s = s"
    by (auto simp: playerAttack_def split: option.splits)
  then show ?thesis by simp
next
  case True
  then obtain c t where ct: "selectedCard s = Some c" "selectedAsset s = Some t" by auto
  from True have p: "p = False" by simp
  from True have g: "phase s = attack_phase" "currentAttacker s = Player" by auto
  show ?thesis
    unfolding p playerAttack_resolved[OF ct g, of e] using ct
    by (auto split: option.splits)
qed


text \<open>
  A relation between the player's assets before and after that holds at the start and that
  every damage to an asset that is not destroyed keeps, holds at the end of the AI's turn.
\<close>

lemma executeAITurn_loop_assets:
  assumes loop: "executeAITurn_loop e diff k c s = Inr s'"
    and d: "distinct (map assetInstanceId (assets (player s)))"
    and start: "R (assets (player s))"
    and step: "\<And>bs i. R bs \<Longrightarrow> map assetInstanceId bs = map assetInstanceId (assets (player s))
                 \<Longrightarrow> i < length bs \<Longrightarrow> state (bs ! i) \<noteq> destroyed \<Longrightarrow> R (damageAt i (bs ! i) bs)"
  shows "R (assets (player s')) \<and>
         map assetInstanceId (assets (player s')) = map assetInstanceId (assets (player s)) \<and>
         assets (ai s') = assets (ai s)"
proof -
  let ?Q = "\<lambda>(k::nat) (c::bool) x. R (assets (player x)) \<and>
         map assetInstanceId (assets (player x)) = map assetInstanceId (assets (player s)) \<and>
         assets (ai x) = assets (ai s)"
  have "\<exists>k' c'. ?Q k' c' s'"
  proof (rule executeAITurn_loop_invariant[OF loop, where Q = ?Q])
    show "?Q k c s" using start by simp
  next
    fix k x c' x1
    assume q: "?Q k True x" and p: "aiTurnPass e k diff x = Inr (c', x1)"
    from q d have dx: "distinct (map assetInstanceId (assets (player x)))" by simp
    from aiTurnPass_assets[OF p dx] q step[of "assets (player x)"]
    show "?Q (Suc k) c' x1" by auto
  qed
  then show ?thesis by simp
qed

lemma executeAITurn_assets:
  assumes run: "executeAITurn e s = Inr s'"
    and d: "distinct (map assetInstanceId (assets (player s)))"
    and start: "R (assets (player s))"
    and step: "\<And>bs i. R bs \<Longrightarrow> map assetInstanceId bs = map assetInstanceId (assets (player s))
                 \<Longrightarrow> i < length bs \<Longrightarrow> state (bs ! i) \<noteq> destroyed \<Longrightarrow> R (damageAt i (bs ! i) bs)"
  shows "R (assets (player s')) \<and>
         map assetInstanceId (assets (player s')) = map assetInstanceId (assets (player s)) \<and>
         assets (ai s') = assets (ai s)"
proof -
  from run obtain n where loop: "executeAITurn_loop e (orHard (difficulty s)) 0 True s = Inr n"
    and s': "assets (player s') = assets (player n)" "assets (ai s') = assets (ai n)"
    by (rule executeAITurn_result) (auto split: if_splits)
  from executeAITurn_loop_assets[of e _ 0 True s n R, OF loop d start step] s'
  show ?thesis by simp
qed

text \<open>The two operations that start a turn of the AI.\<close>

lemma endTurnDraw_frame [simp]:
  "assets (player (endTurnDraw e s)) = assets (player s)"
  "ai (endTurnDraw e s) = ai s"
  "dcDeck (endTurnDraw e s) = dcDeck s"
  "dcHand (player (endTurnDraw e s)) = dcHand (player s)"
  "taDiscard (player (endTurnDraw e s)) = taDiscard (player s)"
  "dcDiscard (player (endTurnDraw e s)) = dcDiscard (player s)"
  "successfulDefenses (player (endTurnDraw e s)) = successfulDefenses (player s)"
  "selectedCard (endTurnDraw e s) = None"
  "selectedAsset (endTurnDraw e s) = None"
  "difficulty (endTurnDraw e s) = difficulty s"
  "phase (endTurnDraw e s) = phase s"
  "taHand (player (endTurnDraw e s)) = taHand (player s) @ mapHandCards (newId e 0) 0 (take 2 (taDeck s))"
  "taDeck (endTurnDraw e s) = drop 2 (taDeck s)"
  by (simp_all add: endTurnDraw_def split_beta drawToHandSize_two)

lemma afterCoinFlip_frame [simp]:
  "player (afterCoinFlip r s) = player s"
  "ai (afterCoinFlip r s) = ai s"
  "taDeck (afterCoinFlip r s) = taDeck s"
  "dcDeck (afterCoinFlip r s) = dcDeck s"
  "selectedCard (afterCoinFlip r s) = selectedCard s"
  "selectedAsset (afterCoinFlip r s) = selectedAsset s"
  "difficulty (afterCoinFlip r s) = difficulty s"
  by (simp_all add: afterCoinFlip_def)

lemma endTurn_cases:
  assumes "endTurn e p s = Inr s'"
  obtains (noop) "s' = s"
  | (turn) "executeAITurn e (endTurnDraw e s) = Inr s'"
proof (cases "p \<or> phase s \<noteq> attack_phase \<or> currentAttacker s \<noteq> Player")
  case True
  then have "endTurn e p s = Inr s" by (auto simp: endTurn_def)
  with assms have "s' = s" by simp
  then show ?thesis by (rule noop)
next
  case False
  then have "endTurn e p s = executeAITurn e (endTurnDraw e s)" by (auto simp: endTurn_def)
  with assms show ?thesis by (intro turn) simp
qed

lemma performCoinFlip_cases:
  assumes "performCoinFlip e p s = Inr s'"
  obtains (noop) "s' = s"
  | (player) "s' = afterCoinFlip Player s"
  | (turn) "executeAITurn e (afterCoinFlip AI s) = Inr s'"
proof (cases "phase s \<noteq> coin_flip \<or> p \<or> difficulty s = None")
  case True
  then have "performCoinFlip e p s = Inr s" by (auto simp: performCoinFlip_def)
  with assms have "s' = s" by simp
  then show ?thesis by (rule noop)
next
  case False
  show ?thesis
  proof (cases "rnd e 0 0 < 0.5")
    case True
    with False have "performCoinFlip e p s = Inr (afterCoinFlip Player s)"
      by (auto simp: performCoinFlip_def)
    with assms have "s' = afterCoinFlip Player s" by simp
    then show ?thesis by (rule player)
  next
    case r: False
    with False have "performCoinFlip e p s = executeAITurn e (afterCoinFlip AI s)"
      by (auto simp: performCoinFlip_def)
    with assms show ?thesis by (intro turn) simp
  qed
qed

lemma staysDestroyed_step:
  "staysDestroyed as bs \<Longrightarrow> i < length bs \<Longrightarrow> state (bs ! i) \<noteq> destroyed
     \<Longrightarrow> staysDestroyed as (damageAt i (bs ! i) bs)"
  by (auto simp: staysDestroyed_nth damageAt_nth)

text \<open>The order of the lifecycle states.\<close>

lemma advances_nth:
  "advances as as' \<longleftrightarrow>
     map assetInstanceId as' = map assetInstanceId as \<and>
     (\<forall>i<length as. stateIndex (state (as ! i)) \<le> stateIndex (state (as' ! i)))"
proof -
  have "map assetInstanceId as' = map assetInstanceId as \<Longrightarrow> length as' = length as"
    by (metis length_map)
  then show ?thesis by (auto simp: advances_def list_all_length)
qed

lemma advances_refl [simp]: "advances as as"
  by (simp add: advances_nth)

lemma stateIndex_next: "stateIndex st \<le> stateIndex (getNextAssetState st)"
  by (cases st) auto

lemma stateIndex_next_live: "st \<noteq> destroyed \<Longrightarrow> stateIndex (getNextAssetState st) = Suc (stateIndex st)"
  by (cases st) auto

lemma advances_damage:
  assumes "advances as bs" "i < length bs"
  shows "advances as (damageAt i (bs ! i) bs)"
proof -
  from assms(1) have l: "length bs = length as" by (metis advances_def length_map)
  show ?thesis
    using assms l stateIndex_next[of "state (bs ! i)"]
    by (auto simp: advances_nth damageAt_nth intro: order_trans)
qed

lemma damageMirrorsState_damage:
  assumes "damageMirrorsState bs" "i < length bs" "state (bs ! i) \<noteq> destroyed"
  shows "damageMirrorsState (damageAt i (bs ! i) bs)"
  using assms by (auto simp: damageMirrorsState_def list_all_length damageAt_nth stateIndex_next_live)

lemma mapCyberAssets_ids: "map assetInstanceId (mapCyberAssets gen k cs) = map gen [k..<k + length cs]"
proof (induction cs arbitrary: k)
  case Nil
  then show ?case by simp
next
  case (Cons c cs)
  have "[k..<Suc (k + length cs)] = k # [Suc k..<Suc (k + length cs)]"
    by (rule upt_conv_Cons) simp
  with Cons.IH[of "Suc k"] show ?case by (simp add: createCyberAsset_def)
qed

lemma mapCyberAssets_fresh: "damageMirrorsState (mapCyberAssets gen k cs)"
  by (induction cs arbitrary: k) (auto simp: damageMirrorsState_def createCyberAsset_def)

lemma idsDistinct_inj: "idsDistinct e \<Longrightarrow> inj (newId e k)"
  by (auto simp: idsDistinct_def inj_on_def)

lemma distinct_map_upt: "inj f \<Longrightarrow> distinct (map f [a..<b])"
  by (simp add: distinct_map inj_on_def)

text \<open>Evaluation of the example states.\<close>

lemmas example_defs =
  envWith_def jackOfHearts_def queenOfHearts_def kingOfHearts_def jackOfSpades_def
  queenOfSpades_def kingOfSpades_def fiveOfHearts_def sevenOfDiamonds_def threeOfSpades_def
  fiveOfSpades_def nineOfClubs_def threeOfHearts_def eightOfDiamonds_def eightOfClubs_def

lemmas model_defs =
  canDefend_def aiChooseDefense_def defendChance_def orHard_def withoutCard_def
  createHandCard_def destroyedAssets_def damageAt_def win_consts

section \<open>The assets in a game\<close>

lemma executeAITurn_frame:
  assumes "executeAITurn e s = Inr s'"
  shows "selectedCard s' = selectedCard s \<and> selectedAsset s' = selectedAsset s \<and>
         difficulty s' = difficulty s \<and>
         dcHand (ai s') = dcHand (ai s) \<and> dcDiscard (ai s') = dcDiscard (ai s) \<and>
         successfulDefenses (ai s') = successfulDefenses (ai s) \<and>
         taHand (player s') = taHand (player s) \<and> taDiscard (player s') = taDiscard (player s)"
proof -
  from assms obtain n where loop: "executeAITurn_loop e (orHard (difficulty s)) 0 True s = Inr n"
    and s': "s' = (if phase n = attack_phase
               then n\<lparr> ai := (ai n)\<lparr>taHand := taHand (ai n) @ mapHandCards (newId e 1) 0 (take 2 (taDeck n))\<rparr>,
                        taDeck := drop 2 (taDeck n),
                        currentAttacker := Player,
                        turnNumber := turnNumber n + 1 \<rparr>
               else n)\<lparr>animation := anim_none\<rparr>"
    by (rule executeAITurn_result)
  let ?Q = "\<lambda>(k::nat) (c::bool) x. selectedCard x = selectedCard s \<and> selectedAsset x = selectedAsset s \<and>
         difficulty x = difficulty s \<and>
         dcHand (ai x) = dcHand (ai s) \<and> dcDiscard (ai x) = dcDiscard (ai s) \<and>
         successfulDefenses (ai x) = successfulDefenses (ai s) \<and>
         taHand (player x) = taHand (player s) \<and> taDiscard (player x) = taDiscard (player s)"
  have "\<exists>k' c'. ?Q k' c' n"
  proof (rule executeAITurn_loop_invariant[OF loop, where Q = ?Q])
    show "?Q 0 True s" by simp
  next
    fix k x c' x1
    assume q: "?Q k True x" and p: "aiTurnPass e k (orHard (difficulty s)) x = Inr (c', x1)"
    from aiTurnPass_turn_frame[OF p] q show "?Q (Suc k) c' x1" by simp
  qed
  then show ?thesis by (simp add: s')
qed

lemma initial_assets:
  "assets (player (initializeGame e)) =
     mapCyberAssets (newId e 2) 0
       (take ASSETS_PER_PLAYER (shuffle (rndShuffle e 3) (dcAssets (generateFullDeck (cardIdCounter e)))))"
  "assets (ai (initializeGame e)) =
     mapCyberAssets (newId e 5) 0
       (take ASSETS_PER_PLAYER (shuffle (rndShuffle e 2) (taAssets (generateFullDeck (cardIdCounter e)))))"
  "selectedAsset (initializeGame e) = None"
  "selectedCard (initializeGame e) = None"
  by (simp_all add: initializeGame_def Let_def)

lemma assetsInv_start: "idsDistinct e \<Longrightarrow> assetsInv (initializeGame e)"
  by (simp add: assetsInv_def initial_assets mapCyberAssets_ids mapCyberAssets_fresh
      distinct_map_upt idsDistinct_inj)

text \<open>The AI's turn keeps the invariant and moves no asset back.\<close>

lemma executeAITurn_assetsInv:
  assumes run: "executeAITurn e m = Inr s'" and inv: "assetsInv m"
  shows "assetsInv s' \<and> advances (assets (player m)) (assets (player s')) \<and> assets (ai s') = assets (ai m)"
proof -
  let ?R = "\<lambda>bs. advances (assets (player m)) bs \<and> damageMirrorsState bs"
  from inv have d: "distinct (map assetInstanceId (assets (player m)))"
    and st: "?R (assets (player m))" by (simp_all add: assetsInv_def)
  have r: "?R (assets (player s')) \<and>
         map assetInstanceId (assets (player s')) = map assetInstanceId (assets (player m)) \<and>
         assets (ai s') = assets (ai m)"
  proof (rule executeAITurn_assets[OF run d, of ?R])
    show "?R (assets (player m))" by (rule st)
  next
    fix bs i
    assume "?R bs" "i < length bs" "state (bs ! i) \<noteq> destroyed"
    then show "?R (damageAt i (bs ! i) bs)"
      by (simp add: advances_damage damageMirrorsState_damage)
  qed
  from executeAITurn_frame[OF run] have sel: "selectedAsset s' = selectedAsset m" by simp
  from inv r sel show ?thesis
    by (auto simp: assetsInv_def liveTarget_def split: option.splits)
qed

lemma hookStep_assetsInv:
  assumes "hookStep okCard liveTarget s s'" and inv: "assetsInv s"
  shows "assetsInv s' \<and> advances (assets (player s)) (assets (player s'))
         \<and> advances (assets (ai s)) (assets (ai s'))"
  using assms(1)
proof cases
  case (chooseDifficulty d)
  with inv show ?thesis by (auto simp: assetsInv_def setDifficulty_def liveTarget_def split: option.splits)
next
  case (coinFlip e)
  from coinFlip(2) show ?thesis
  proof (cases rule: performCoinFlip_cases)
    case noop
    with inv show ?thesis by simp
  next
    case player
    with inv show ?thesis by (auto simp: assetsInv_def liveTarget_def split: option.splits)
  next
    case turn
    have "assetsInv (afterCoinFlip AI s)" using inv by (auto simp: assetsInv_def liveTarget_def split: option.splits)
    from executeAITurn_assetsInv[OF turn this] show ?thesis by simp
  qed
next
  case (pickCard c)
  with inv show ?thesis by (auto simp: assetsInv_def selectCard_def liveTarget_def split: option.splits)
next
  case dropCard
  with inv show ?thesis by (auto simp: assetsInv_def selectCard_def liveTarget_def split: option.splits)
next
  case (pickAsset a)
  with inv show ?thesis by (auto simp: assetsInv_def selectAsset_def liveTarget_def split: option.splits)
next
  case dropAsset
  with inv show ?thesis by (auto simp: assetsInv_def selectAsset_def liveTarget_def split: option.splits)
next
  case (attack e)
  have pl: "assets (player s') = assets (player s)"
    using playerAttack_assets[of e False s] attack by simp
  have sel: "selectedAsset s' = None \<or> s' = s"
  proof (cases "selectedCard s \<noteq> None \<and> selectedAsset s \<noteq> None \<and> phase s = attack_phase
                \<and> currentAttacker s = Player")
    case True
    then obtain c t where ct: "selectedCard s = Some c" "selectedAsset s = Some t" by auto
    from True have g: "phase s = attack_phase" "currentAttacker s = Player" by auto
    show ?thesis unfolding attack(1) playerAttack_resolved[OF ct g, of e]
      by (simp split: option.splits)
  next
    case False
    then have "playerAttack e False s = s" by (auto simp: playerAttack_def split: option.splits)
    with attack show ?thesis by simp
  qed
  from playerAttack_assets[of e False s] attack(1)
  consider (same) "assets (ai s') = assets (ai s)"
    | (hit) i t where "selectedAsset s = Some t"
        "findIndex (\<lambda>a. assetInstanceId a = assetInstanceId t) (assets (ai s)) = Some i"
        "assets (ai s') = damageAt i t (assets (ai s))"
    by auto
  then show ?thesis
  proof cases
    case same
    with inv pl sel show ?thesis
      by (auto simp: assetsInv_def liveTarget_def split: option.splits)
  next
    case (hit i t)
    from inv hit(1) have t: "t \<in> set (assets (ai s))" "state t \<noteq> destroyed"
      and d: "distinct (map assetInstanceId (assets (ai s)))"
      by (simp_all add: assetsInv_def liveTarget_def)
    from findIndex_distinct[OF d t(1)] hit(2) have i: "i < length (assets (ai s))" "assets (ai s) ! i = t"
      by auto
    have dm: "damageMirrorsState (damageAt i (assets (ai s) ! i) (assets (ai s)))"
      using inv i t by (intro damageMirrorsState_damage) (simp_all add: assetsInv_def)
    have adv: "advances (assets (ai s)) (damageAt i (assets (ai s) ! i) (assets (ai s)))"
      using i by (intro advances_damage) simp_all
    from sel have ns: "selectedAsset s' = None"
    proof
      assume "s' = s"
      with hit(3) i t have "state (assets (ai s) ! i) = getNextAssetState (state t)"
        by (metis damageAt_nth CyberAsset.select_convs(3) CyberAsset.surjective CyberAsset.update_convs(3,4))
      with i t show ?thesis by (cases "state t") auto
    qed simp
    from inv pl ns dm adv hit(3) i show ?thesis
      by (simp add: assetsInv_def)
  qed
next
  case (finish e)
  from finish(2) show ?thesis
  proof (cases rule: endTurn_cases)
    case noop
    with inv show ?thesis by simp
  next
    case turn
    have "assetsInv (endTurnDraw e s)" using inv by (auto simp: assetsInv_def liveTarget_def split: option.splits)
    from executeAITurn_assetsInv[OF turn this] show ?thesis by simp
  qed
qed

lemma hookReachable_assetsInv: "hookReachable okCard liveTarget s \<Longrightarrow> assetsInv s"
proof (induction rule: hookReachable.induct)
  case (start e)
  then show ?case by (rule assetsInv_start)
next
  case (step s s')
  with hookStep_assetsInv show ?case by blast
qed

section \<open>The cards in a game\<close>

lemma length_swap [simp]: "length (swap i j xs) = length xs"
  by (simp add: swap_def)

lemma length_shuffle_from [simp]: "length (shuffle_from r i xs) = length xs"
  by (induction i arbitrary: xs) simp_all

lemma length_createShuffledDeck [simp]: "length (createShuffledDeck r xs) = length xs"
  by (simp add: createShuffledDeck_def)

lemma mapHandCards_ids: "map instanceId (mapHandCards gen k cs) = map gen [k..<k + length cs]"
proof (induction cs arbitrary: k)
  case Nil
  then show ?case by simp
next
  case (Cons c cs)
  have "[k..<Suc (k + length cs)] = k # [Suc k..<Suc (k + length cs)]"
    by (rule upt_conv_Cons) simp
  with Cons.IH[of "Suc k"] show ?case by (simp add: createHandCard_def)
qed

lemma initial_cards:
  "taHand (player (initializeGame e)) =
     mapHandCards (newId e 0) 0 (take 5 (createShuffledDeck (rndShuffle e 0)
        (taCards (generateFullDeck (cardIdCounter e)) @ [jokers (generateFullDeck (cardIdCounter e)) ! 0])))"
  "dcHand (player (initializeGame e)) =
     mapHandCards (newId e 1) 0 (take 5 (createShuffledDeck (rndShuffle e 1)
        (dcCards (generateFullDeck (cardIdCounter e)) @ [jokers (generateFullDeck (cardIdCounter e)) ! 1])))"
  "taHand (ai (initializeGame e)) =
     mapHandCards (newId e 3) 0 (take 5 (drop 5 (createShuffledDeck (rndShuffle e 0)
        (taCards (generateFullDeck (cardIdCounter e)) @ [jokers (generateFullDeck (cardIdCounter e)) ! 0]))))"
  "dcHand (ai (initializeGame e)) =
     mapHandCards (newId e 4) 0 (take 5 (drop 5 (createShuffledDeck (rndShuffle e 1)
        (dcCards (generateFullDeck (cardIdCounter e)) @ [jokers (generateFullDeck (cardIdCounter e)) ! 1]))))"
  "taDeck (initializeGame e) = drop 10 (createShuffledDeck (rndShuffle e 0)
        (taCards (generateFullDeck (cardIdCounter e)) @ [jokers (generateFullDeck (cardIdCounter e)) ! 0]))"
  "dcDeck (initializeGame e) = drop 10 (createShuffledDeck (rndShuffle e 1)
        (dcCards (generateFullDeck (cardIdCounter e)) @ [jokers (generateFullDeck (cardIdCounter e)) ! 1]))"
  "taDiscard (player (initializeGame e)) = []" "taDiscard (ai (initializeGame e)) = []"
  "dcDiscard (player (initializeGame e)) = []" "dcDiscard (ai (initializeGame e)) = []"
  by (simp_all add: initializeGame_def Let_def HAND_SIZE_def)

lemma deck_sizes:
  "length (taCards (generateFullDeck c)) = 20" "length (dcCards (generateFullDeck c)) = 20"
  by (simp_all add: generateFullDeck_def cardValues_def)

lemma initial_counts: "attackCards (initializeGame e) = 21" "defenseCards (initializeGame e) = 21"
  by (simp_all add: attackCards_def defenseCards_def initial_cards deck_sizes)

lemma mapHandCards_distinct: "inj gen \<Longrightarrow> distinct (map instanceId (mapHandCards gen k cs))"
  by (simp only: mapHandCards_ids distinct_map_upt)

lemma cardsInv_start: "idsDistinct e \<Longrightarrow> cardsInv (initializeGame e)"
  by (simp add: cardsInv_def initial_counts handsDistinct_def initial_cards(1-4) initial_assets
      mapHandCards_distinct idsDistinct_inj)

text \<open>Removing a card from a hand, and drawing cards into it.\<close>

lemma withoutCard_facts:
  "set (withoutCard c h) \<subseteq> set h"
  "distinct (map instanceId h) \<Longrightarrow> distinct (map instanceId (withoutCard c h))"
  by (auto simp: withoutCard_def distinct_map_filter)

lemma drawn_distinct:
  assumes "distinct (map instanceId h)" "inj gen" "\<forall>j. gen j \<notin> instanceId ` set h"
  shows "distinct (map instanceId (h @ mapHandCards gen 0 cs))"
proof -
  have 1: "distinct (map instanceId (mapHandCards gen 0 cs))"
    using assms(2) by (rule mapHandCards_distinct)
  have 2: "set (map instanceId (mapHandCards gen 0 cs)) \<subseteq> range gen"
    by (simp only: mapHandCards_ids) auto
  have 3: "instanceId ` set h \<inter> range gen = {}"
  proof (rule ccontr)
    assume "instanceId ` set h \<inter> range gen \<noteq> {}"
    then obtain x where x: "x \<in> instanceId ` set h" "x \<in> range gen" by blast
    from x(2) obtain j where "x = gen j" by blast
    with x(1) assms(3) show False by simp
  qed
  have 4: "set (map instanceId h) \<inter> set (map instanceId (mapHandCards gen 0 cs)) = {}"
    using 2 3 by auto
  show ?thesis unfolding map_append distinct_append using 1 4 assms(1) by blast
qed

lemma drawn_ids:
  "instanceId ` set (h @ mapHandCards gen 0 cs) \<subseteq> instanceId ` set h \<union> range gen"
proof -
  have "instanceId ` set (mapHandCards gen 0 cs) = set (map instanceId (mapHandCards gen 0 cs))" by simp
  also have "\<dots> \<subseteq> range gen" unfolding mapHandCards_ids by auto
  finally show ?thesis by auto
qed

lemma length_take_drop2: "length (take 2 xs) + length (drop 2 xs) = length xs"
  by simp

text \<open>The cards a pass of the AI's turn moves.\<close>

lemma aiTurnPass_cards:
  assumes "aiTurnPass e k diff s = Inr (c, s')"
  shows "taDeck s' = taDeck s \<and> taHand (player s') = taHand (player s) \<and>
         taDiscard (player s') = taDiscard (player s) \<and> dcHand (ai s') = dcHand (ai s) \<and>
         dcDiscard (ai s') = dcDiscard (ai s) \<and> selectedCard s' = selectedCard s \<and>
         ((taHand (ai s') = taHand (ai s) \<and> taDiscard (ai s') = taDiscard (ai s) \<and>
           dcHand (player s') = dcHand (player s) \<and> dcDiscard (player s') = dcDiscard (player s) \<and>
           dcDeck s' = dcDeck s)
          \<or> (\<exists>a. a \<in> set (taHand (ai s)) \<and> taHand (ai s') = withoutCard a (taHand (ai s)) \<and>
                  taDiscard (ai s') = taDiscard (ai s) @ [card a] \<and>
                  ((dcHand (player s') = dcHand (player s) \<and> dcDiscard (player s') = dcDiscard (player s) \<and>
                    dcDeck s' = dcDeck s)
                   \<or> (\<exists>d. d \<in> set (dcHand (player s)) \<and>
                          dcHand (player s') = withoutCard d (dcHand (player s))
                              @ mapHandCards (newId e (k + 2)) 0 (take 2 (dcDeck s)) \<and>
                          dcDiscard (player s') = dcDiscard (player s) @ [card d] \<and>
                          dcDeck s' = drop 2 (dcDeck s)))))"
  using assms
proof (cases rule: aiTurnPass_cases)
  case idle
  then show ?thesis by simp
next
  case (blocked t a d)
  from find_SomeD[OF blocked(3)] have "d \<in> set (dcHand (player s))" by simp
  with blocked show ?thesis by auto
next
  case (hit t a)
  then show ?thesis by (auto split: option.splits)
qed



lemma withoutCard_ids: "instanceId ` set (withoutCard c h) \<subseteq> instanceId ` set h"
  using withoutCard_facts(1)[of c h] by blast

lemma idsDistinct_rounds: "idsDistinct e \<Longrightarrow> k \<noteq> k' \<Longrightarrow> newId e k' j \<notin> range (newId e k)"
  by (auto simp: idsDistinct_def)

text \<open>A pass of the AI's turn keeps the numbers of cards and the distinctness of the ids.\<close>

lemma aiTurnPass_cardsInv:
  assumes pass: "aiTurnPass e k diff x = Inr (c', x1)"
    and n: "attackCards x = n1" "defenseCards x = n2"
    and hd: "handsDistinct x"
    and de: "idsDistinct e"
    and fr: "\<forall>k'\<ge>k + 2. \<forall>j. newId e k' j \<notin> instanceId ` set (dcHand (player x))"
  shows "attackCards x1 = n1 \<and> defenseCards x1 = n2 \<and> handsDistinct x1 \<and>
         (\<forall>k'\<ge>k + 3. \<forall>j. newId e k' j \<notin> instanceId ` set (dcHand (player x1))) \<and>
         instanceId ` set (taHand (ai x1)) \<subseteq> instanceId ` set (taHand (ai x)) \<and>
         taHand (player x1) = taHand (player x) \<and> selectedCard x1 = selectedCard x"
proof -
  note c = aiTurnPass_cards[OF pass]
  from c have same: "taDeck x1 = taDeck x" "taHand (player x1) = taHand (player x)"
    "taDiscard (player x1) = taDiscard (player x)" "dcHand (ai x1) = dcHand (ai x)"
    "dcDiscard (ai x1) = dcDiscard (ai x)" "selectedCard x1 = selectedCard x" by simp_all
  from c consider
    (idle) "taHand (ai x1) = taHand (ai x)" "taDiscard (ai x1) = taDiscard (ai x)"
           "dcHand (player x1) = dcHand (player x)" "dcDiscard (player x1) = dcDiscard (player x)"
           "dcDeck x1 = dcDeck x"
  | (hit) a where "a \<in> set (taHand (ai x))" "taHand (ai x1) = withoutCard a (taHand (ai x))"
           "taDiscard (ai x1) = taDiscard (ai x) @ [card a]"
           "dcHand (player x1) = dcHand (player x)" "dcDiscard (player x1) = dcDiscard (player x)"
           "dcDeck x1 = dcDeck x"
  | (blocked) a d where "a \<in> set (taHand (ai x))" "taHand (ai x1) = withoutCard a (taHand (ai x))"
           "taDiscard (ai x1) = taDiscard (ai x) @ [card a]"
           "d \<in> set (dcHand (player x))"
           "dcHand (player x1) = withoutCard d (dcHand (player x))
                                  @ mapHandCards (newId e (k + 2)) 0 (take 2 (dcDeck x))"
           "dcDiscard (player x1) = dcDiscard (player x) @ [card d]"
           "dcDeck x1 = drop 2 (dcDeck x)"
    by blast
  then show ?thesis
  proof cases
    case idle
    with same n hd fr show ?thesis
      by (simp add: attackCards_def defenseCards_def handsDistinct_def)
  next
    case (hit a)
    from hd have da: "distinct (map instanceId (taHand (ai x)))" by (simp add: handsDistinct_def)
    from length_withoutCard_distinct[OF da hit(1)]
    have l: "Suc (length (taHand (ai x1))) = length (taHand (ai x))" by (simp add: hit(2))
    have "attackCards x1 = n1" using n(1) l same hit(3) by (simp add: attackCards_def)
    moreover have "defenseCards x1 = n2" using n(2) same hit(4-6) by (simp add: defenseCards_def)
    moreover have "handsDistinct x1"
      using hd same hit(2,4) withoutCard_facts(2)[OF da, of a] by (simp add: handsDistinct_def)
    moreover have "instanceId ` set (taHand (ai x1)) \<subseteq> instanceId ` set (taHand (ai x))"
      unfolding hit(2) by (rule withoutCard_ids)
    ultimately show ?thesis using fr same hit(4) by simp
  next
    case (blocked a d)
    from hd have da: "distinct (map instanceId (taHand (ai x)))"
      and dp: "distinct (map instanceId (dcHand (player x)))" by (simp_all add: handsDistinct_def)
    from length_withoutCard_distinct[OF da blocked(1)]
    have l: "Suc (length (taHand (ai x1))) = length (taHand (ai x))" by (simp add: blocked(2))
    from length_withoutCard_distinct[OF dp blocked(4)]
    have ld: "Suc (length (withoutCard d (dcHand (player x)))) = length (dcHand (player x))" .
    let ?rest = "withoutCard d (dcHand (player x))"
    have fresh_rest: "\<forall>j. newId e (k + 2) j \<notin> instanceId ` set ?rest"
    proof
      fix j
      from fr have "newId e (k + 2) j \<notin> instanceId ` set (dcHand (player x))" by simp
      with withoutCard_ids[of d "dcHand (player x)"]
      show "newId e (k + 2) j \<notin> instanceId ` set ?rest" by blast
    qed
    have "attackCards x1 = n1" using n(1) l same blocked(3) by (simp add: attackCards_def)
    moreover have "defenseCards x1 = n2"
    proof -
      have "length (dcHand (player x1)) + length (dcDeck x1)
              = length ?rest + length (dcDeck x)"
        unfolding blocked(5,7) by (simp only: length_append length_mapHandCards) simp
      with n(2) ld same blocked(6) show ?thesis by (simp add: defenseCards_def)
    qed
    moreover have "handsDistinct x1"
    proof -
      have "distinct (map instanceId (dcHand (player x1)))"
        unfolding blocked(5)
        by (rule drawn_distinct[OF withoutCard_facts(2)[OF dp] idsDistinct_inj[OF de] fresh_rest])
      with hd same blocked(2) withoutCard_facts(2)[OF da, of a] show ?thesis
        by (simp add: handsDistinct_def)
    qed
    moreover have "instanceId ` set (taHand (ai x1)) \<subseteq> instanceId ` set (taHand (ai x))"
      unfolding blocked(2) by (rule withoutCard_ids)
    moreover have "\<forall>k'\<ge>k + 3. \<forall>j. newId e k' j \<notin> instanceId ` set (dcHand (player x1))"
    proof (intro allI impI)
      fix k' j assume k': "k + 3 \<le> k'"
      have sub: "instanceId ` set (dcHand (player x1))
                   \<subseteq> instanceId ` set ?rest \<union> range (newId e (k + 2))"
        unfolding blocked(5) by (rule drawn_ids)
      from fr k' have "newId e k' j \<notin> instanceId ` set (dcHand (player x))" by simp
      with withoutCard_ids[of d "dcHand (player x)"]
      have 1: "newId e k' j \<notin> instanceId ` set ?rest" by blast
      have 2: "newId e k' j \<notin> range (newId e (k + 2))"
        using k' by (intro idsDistinct_rounds[OF de]) simp
      from sub 1 2 show "newId e k' j \<notin> instanceId ` set (dcHand (player x1))" by blast
    qed
    ultimately show ?thesis using same by simp
  qed
qed


text \<open>The AI's turn keeps the numbers of cards and the distinctness of the ids.\<close>

lemma executeAITurn_cardsInv:
  assumes run: "executeAITurn e m = Inr s'"
    and de: "idsDistinct e"
    and n: "attackCards m = n1" "defenseCards m = n2"
    and hd: "handsDistinct m"
    and fr2: "\<forall>k'\<ge>2. \<forall>j. newId e k' j \<notin> instanceId ` set (dcHand (player m))"
    and fr1: "\<forall>j. newId e 1 j \<notin> instanceId ` set (taHand (ai m))"
  shows "attackCards s' = n1 \<and> defenseCards s' = n2 \<and> handsDistinct s' \<and>
         taHand (player s') = taHand (player m) \<and> selectedCard s' = selectedCard m"
proof -
  from run obtain x where loop: "executeAITurn_loop e (orHard (difficulty m)) 0 True m = Inr x"
    and s': "s' = (if phase x = attack_phase
               then x\<lparr> ai := (ai x)\<lparr>taHand := taHand (ai x) @ mapHandCards (newId e 1) 0 (take 2 (taDeck x))\<rparr>,
                        taDeck := drop 2 (taDeck x),
                        currentAttacker := Player,
                        turnNumber := turnNumber x + 1 \<rparr>
               else x)\<lparr>animation := anim_none\<rparr>"
    by (rule executeAITurn_result)
  let ?Q = "\<lambda>k (c::bool) x. attackCards x = n1 \<and> defenseCards x = n2 \<and> handsDistinct x \<and>
         (\<forall>k'\<ge>k + 2. \<forall>j. newId e k' j \<notin> instanceId ` set (dcHand (player x))) \<and>
         instanceId ` set (taHand (ai x)) \<subseteq> instanceId ` set (taHand (ai m)) \<and>
         taHand (player x) = taHand (player m) \<and> selectedCard x = selectedCard m"
  have "\<exists>k' c'. ?Q k' c' x"
  proof (rule executeAITurn_loop_invariant[OF loop, where Q = ?Q])
    show "?Q 0 True m" using n hd fr2 by simp
  next
    fix k y c' y1
    assume q: "?Q k True y" and p: "aiTurnPass e k (orHard (difficulty m)) y = Inr (c', y1)"
    from q have a: "attackCards y = n1" "defenseCards y = n2" "handsDistinct y"
      "\<forall>k'\<ge>k + 2. \<forall>j. newId e k' j \<notin> instanceId ` set (dcHand (player y))" by simp_all
    note st = aiTurnPass_cardsInv[OF p a(1,2,3) de a(4)]
    have e3: "Suc k + 2 = k + 3" by simp
    from q have sub: "instanceId ` set (taHand (ai y)) \<subseteq> instanceId ` set (taHand (ai m))"
      and same: "taHand (player y) = taHand (player m)" "selectedCard y = selectedCard m"
      by simp_all
    from st have sub1: "instanceId ` set (taHand (ai y1)) \<subseteq> instanceId ` set (taHand (ai y))"
      by blast
    from sub1 sub have sub2: "instanceId ` set (taHand (ai y1)) \<subseteq> instanceId ` set (taHand (ai m))"
      by (rule subset_trans)
    from st have r1: "attackCards y1 = n1" "defenseCards y1 = n2" "handsDistinct y1"
      "\<forall>k'\<ge>k + 3. \<forall>j. newId e k' j \<notin> instanceId ` set (dcHand (player y1))"
      "taHand (player y1) = taHand (player y)" "selectedCard y1 = selectedCard y"
      by blast+
    show "?Q (Suc k) c' y1"
      unfolding e3 using r1 sub2 same by (intro conjI) simp_all
  qed
  then obtain k' c' where qx: "?Q k' c' x" by (elim exE)
  then have x: "attackCards x = n1" "defenseCards x = n2" "handsDistinct x"
    "instanceId ` set (taHand (ai x)) \<subseteq> instanceId ` set (taHand (ai m))"
    "taHand (player x) = taHand (player m)" "selectedCard x = selectedCard m"
    by blast+
  show ?thesis
  proof (cases "phase x = attack_phase")
    case False
    then have "s' = x\<lparr>animation := anim_none\<rparr>" by (simp add: s')
    with x(1,2,3,5,6) show ?thesis by (simp add: attackCards_def defenseCards_def handsDistinct_def)
  next
    case True
    from x(3) have da: "distinct (map instanceId (taHand (ai x)))" by (simp add: handsDistinct_def)
    have fresh: "\<forall>j. newId e 1 j \<notin> instanceId ` set (taHand (ai x))" using fr1 x(4) by blast
    have d': "distinct (map instanceId (taHand (ai x) @ mapHandCards (newId e 1) 0 (take 2 (taDeck x))))"
      by (rule drawn_distinct[OF da idsDistinct_inj[OF de] fresh])
    have "attackCards s' = n1"
      using x(1) length_take_drop2[of "taDeck x"] by (simp add: s' True attackCards_def)
    moreover have "defenseCards s' = n2" using x(2) by (simp add: s' True defenseCards_def)
    moreover have "handsDistinct s'" using x(3) d' by (simp add: s' True handsDistinct_def)
    ultimately show ?thesis using x(5,6) by (simp add: s' True)
  qed
qed



text \<open>The player's attack keeps them too, when the selected card is in the player's hand.\<close>

lemma playerAttack_idle:
  assumes "\<not> (\<exists>c t. selectedCard s = Some c \<and> selectedAsset s = Some t \<and>
                     phase s = attack_phase \<and> currentAttacker s = Player)"
  shows "playerAttack e False s = s"
  using assms by (auto simp: playerAttack_def split: option.splits)

lemma playerAttack_hit_cards:
  assumes g: "selectedCard s = Some c" "selectedAsset s = Some t"
    "phase s = attack_phase" "currentAttacker s = Player"
    and dec: "decCard (aiChooseDefense (rnd e 0 0) (dcHand (ai s)) (card c) (orHard (difficulty s))) = None"
  shows "taHand (player (playerAttack e False s)) = withoutCard c (taHand (player s))"
    "taDiscard (player (playerAttack e False s)) = taDiscard (player s) @ [card c]"
    "dcHand (player (playerAttack e False s)) = dcHand (player s)"
    "dcDiscard (player (playerAttack e False s)) = dcDiscard (player s)"
    "taHand (ai (playerAttack e False s)) = taHand (ai s)"
    "taDiscard (ai (playerAttack e False s)) = taDiscard (ai s)"
    "dcHand (ai (playerAttack e False s)) = dcHand (ai s)"
    "dcDiscard (ai (playerAttack e False s)) = dcDiscard (ai s)"
    "taDeck (playerAttack e False s) = taDeck s"
    "dcDeck (playerAttack e False s) = dcDeck s"
    "selectedCard (playerAttack e False s) = None"
  unfolding playerAttack_resolved[OF g, of e] dec
  by (simp_all split: option.splits)

lemma playerAttack_blocked_cards:
  assumes g: "selectedCard s = Some c" "selectedAsset s = Some t"
    "phase s = attack_phase" "currentAttacker s = Player"
    and dec: "decCard (aiChooseDefense (rnd e 0 0) (dcHand (ai s)) (card c) (orHard (difficulty s))) = Some d"
  shows "taHand (player (playerAttack e False s)) = withoutCard c (taHand (player s))"
    "taDiscard (player (playerAttack e False s)) = taDiscard (player s) @ [card c]"
    "dcHand (player (playerAttack e False s)) = dcHand (player s)"
    "dcDiscard (player (playerAttack e False s)) = dcDiscard (player s)"
    "taHand (ai (playerAttack e False s)) = taHand (ai s)"
    "taDiscard (ai (playerAttack e False s)) = taDiscard (ai s)"
    "dcHand (ai (playerAttack e False s))
       = withoutCard d (dcHand (ai s)) @ mapHandCards (newId e 0) 0 (take 2 (dcDeck s))"
    "dcDiscard (ai (playerAttack e False s)) = dcDiscard (ai s) @ [card d]"
    "taDeck (playerAttack e False s) = taDeck s"
    "dcDeck (playerAttack e False s) = drop 2 (dcDeck s)"
    "selectedCard (playerAttack e False s) = None"
  unfolding playerAttack_resolved[OF g, of e] dec
  by (simp_all add: drawToHandSize_two)

lemma playerAttack_cardsInv:
  assumes inv: "cardsInv s" and fr: "idsFresh e s"
  shows "cardsInv (playerAttack e False s)"
proof (cases "\<exists>c t. selectedCard s = Some c \<and> selectedAsset s = Some t \<and>
                     phase s = attack_phase \<and> currentAttacker s = Player")
  case False
  then have "playerAttack e False s = s" by (rule playerAttack_idle)
  with inv show ?thesis by simp
next
  case True
  then obtain c t where g: "selectedCard s = Some c" "selectedAsset s = Some t"
    "phase s = attack_phase" "currentAttacker s = Player" by blast
  from inv g(1) have c: "c \<in> set (taHand (player s))" by (simp add: cardsInv_def ownAttackCard_def)
  from inv have n: "attackCards s = 21" "defenseCards s = 21"
    and dp: "distinct (map instanceId (taHand (player s)))"
    and da: "distinct (map instanceId (dcHand (ai s)))"
    and hd: "handsDistinct s" by (simp_all add: cardsInv_def handsDistinct_def)
  from length_withoutCard_distinct[OF dp c]
  have l: "Suc (length (withoutCard c (taHand (player s)))) = length (taHand (player s))" .
  note dp' = withoutCard_facts(2)[OF dp, of c]
  show ?thesis
  proof (cases "decCard (aiChooseDefense (rnd e 0 0) (dcHand (ai s)) (card c) (orHard (difficulty s)))")
    case None
    note f = playerAttack_hit_cards[OF g None]
    have "attackCards (playerAttack e False s) = 21"
      using n(1) l unfolding attackCards_def f by simp
    moreover have "defenseCards (playerAttack e False s) = 21"
      using n(2) unfolding defenseCards_def f by simp
    moreover have "handsDistinct (playerAttack e False s)"
      using hd dp' unfolding handsDistinct_def f by simp
    ultimately show ?thesis by (simp add: cardsInv_def f(11))
  next
    case (Some d)
    note f = playerAttack_blocked_cards[OF g Some]
    from aiChooseDefense_valid[OF Some] have d: "d \<in> set (dcHand (ai s))" by simp
    from length_withoutCard_distinct[OF da d]
    have ld: "Suc (length (withoutCard d (dcHand (ai s)))) = length (dcHand (ai s))" .
    let ?rest = "withoutCard d (dcHand (ai s))"
    from fr have de: "idsDistinct e" by (simp add: idsFresh_def)
    have fresh: "\<forall>j. newId e 0 j \<notin> instanceId ` set ?rest"
    proof
      fix j
      from fr have "newId e 0 j \<notin> handIds s" by (simp add: idsFresh_def)
      then have "newId e 0 j \<notin> instanceId ` set (dcHand (ai s))" by (auto simp: handIds_def)
      with withoutCard_ids[of d "dcHand (ai s)"]
      show "newId e 0 j \<notin> instanceId ` set ?rest" by blast
    qed
    have d': "distinct (map instanceId (?rest @ mapHandCards (newId e 0) 0 (take 2 (dcDeck s))))"
      by (rule drawn_distinct[OF withoutCard_facts(2)[OF da] idsDistinct_inj[OF de] fresh])
    have "attackCards (playerAttack e False s) = 21"
      using n(1) l unfolding attackCards_def f by simp
    moreover have "defenseCards (playerAttack e False s) = 21"
    proof -
      have "length (?rest @ mapHandCards (newId e 0) 0 (take 2 (dcDeck s))) + length (drop 2 (dcDeck s))
              = length ?rest + length (dcDeck s)"
        by (simp only: length_append length_mapHandCards) simp
      with n(2) ld show ?thesis unfolding defenseCards_def f by simp
    qed
    moreover have "handsDistinct (playerAttack e False s)"
      using hd dp' d' unfolding handsDistinct_def f by simp
    ultimately show ?thesis by (simp add: cardsInv_def f(11))
  qed
qed


lemma idsFresh_hand:
  assumes "idsFresh e s"
  shows "newId e k j \<notin> instanceId ` set (taHand (player s))"
    "newId e k j \<notin> instanceId ` set (dcHand (player s))"
    "newId e k j \<notin> instanceId ` set (taHand (ai s))"
    "newId e k j \<notin> instanceId ` set (dcHand (ai s))"
proof -
  from assms have "newId e k j \<notin> handIds s" by (simp add: idsFresh_def)
  then show "newId e k j \<notin> instanceId ` set (taHand (player s))"
    "newId e k j \<notin> instanceId ` set (dcHand (player s))"
    "newId e k j \<notin> instanceId ` set (taHand (ai s))"
    "newId e k j \<notin> instanceId ` set (dcHand (ai s))"
    by (auto simp: handIds_def)
qed

text \<open>The turn of the AI after the player's draw, and after a coin flip the AI wins.\<close>

lemma endTurnDraw_cardsInv:
  assumes run: "executeAITurn e (endTurnDraw e s) = Inr s'"
    and inv: "cardsInv s" and fr: "idsFresh e s"
  shows "cardsInv s'"
proof -
  let ?m = "endTurnDraw e s"
  from fr have de: "idsDistinct e" by (simp add: idsFresh_def)
  from inv have n: "attackCards s = 21" "defenseCards s = 21" and hd: "handsDistinct s"
    by (simp_all add: cardsInv_def)
  from hd have dp: "distinct (map instanceId (taHand (player s)))" by (simp add: handsDistinct_def)
  have fresh: "\<forall>j. newId e 0 j \<notin> instanceId ` set (taHand (player s))"
    using idsFresh_hand(1)[OF fr] by blast
  have d': "distinct (map instanceId (taHand (player s) @ mapHandCards (newId e 0) 0 (take 2 (taDeck s))))"
    by (rule drawn_distinct[OF dp idsDistinct_inj[OF de] fresh])
  have 1: "attackCards ?m = 21"
    using n(1) length_take_drop2[of "taDeck s"] by (simp add: attackCards_def)
  have 2: "defenseCards ?m = 21" using n(2) by (simp add: defenseCards_def)
  have 3: "handsDistinct ?m" using hd d' by (simp add: handsDistinct_def)
  have 4: "\<forall>k'\<ge>2. \<forall>j. newId e k' j \<notin> instanceId ` set (dcHand (player ?m))"
    using idsFresh_hand(2)[OF fr] by simp
  have 5: "\<forall>j. newId e 1 j \<notin> instanceId ` set (taHand (ai ?m))"
    using idsFresh_hand(3)[OF fr] by simp
  from executeAITurn_cardsInv[OF run de 1 2 3 4 5]
  show ?thesis by (simp add: cardsInv_def)
qed

lemma afterCoinFlip_cardsInv:
  assumes run: "executeAITurn e (afterCoinFlip AI s) = Inr s'"
    and inv: "cardsInv s" and fr: "idsFresh e s"
  shows "cardsInv s'"
proof -
  let ?m = "afterCoinFlip AI s"
  from fr have de: "idsDistinct e" by (simp add: idsFresh_def)
  from inv have 1: "attackCards ?m = 21" and 2: "defenseCards ?m = 21" and 3: "handsDistinct ?m"
    and sel: "case selectedCard s of None \<Rightarrow> True | Some c \<Rightarrow> c \<in> set (taHand (player s))"
    by (simp_all add: cardsInv_def attackCards_def defenseCards_def handsDistinct_def ownAttackCard_def
        split: option.splits)
  have 4: "\<forall>k'\<ge>2. \<forall>j. newId e k' j \<notin> instanceId ` set (dcHand (player ?m))"
    using idsFresh_hand(2)[OF fr] by simp
  have 5: "\<forall>j. newId e 1 j \<notin> instanceId ` set (taHand (ai ?m))"
    using idsFresh_hand(3)[OF fr] by simp
  from executeAITurn_cardsInv[OF run de 1 2 3 4 5] sel
  show ?thesis by (simp add: cardsInv_def ownAttackCard_def split: option.splits)
qed

lemma cardsInv_cong:
  assumes "cardsInv s" "player s' = player s" "ai s' = ai s" "taDeck s' = taDeck s" "dcDeck s' = dcDeck s"
    "selectedCard s' = selectedCard s \<or> selectedCard s' = None"
  shows "cardsInv s'"
  using assms
  by (auto simp: cardsInv_def attackCards_def defenseCards_def handsDistinct_def ownAttackCard_def
      split: option.splits)

text \<open>Every step of a game in which only cards of the player's attack hand are selected keeps them.\<close>

lemma hookStep_cardsInv:
  assumes "hookStep ownAttackCard okAsset s s'" and inv: "cardsInv s"
  shows "cardsInv s'"
  using assms(1)
proof cases
  case (chooseDifficulty d)
  show ?thesis unfolding chooseDifficulty
    by (rule cardsInv_cong[OF inv]) (simp_all add: setDifficulty_def)
next
  case (coinFlip e)
  from coinFlip(2) show ?thesis
  proof (cases rule: performCoinFlip_cases)
    case noop
    with inv show ?thesis by simp
  next
    case player
    show ?thesis unfolding player by (rule cardsInv_cong[OF inv]) simp_all
  next
    case turn
    from afterCoinFlip_cardsInv[OF turn inv coinFlip(1)] show ?thesis .
  qed
next
  case (pickCard c)
  with inv show ?thesis
    by (simp add: cardsInv_def attackCards_def defenseCards_def handsDistinct_def ownAttackCard_def
        selectCard_def split: option.splits)
next
  case dropCard
  show ?thesis unfolding dropCard by (rule cardsInv_cong[OF inv]) (simp_all add: selectCard_def)
next
  case (pickAsset a)
  show ?thesis unfolding pickAsset by (rule cardsInv_cong[OF inv]) (simp_all add: selectAsset_def)
next
  case dropAsset
  show ?thesis unfolding dropAsset by (rule cardsInv_cong[OF inv]) (simp_all add: selectAsset_def)
next
  case (attack e)
  from playerAttack_cardsInv[OF inv attack(2)] attack(1) show ?thesis by simp
next
  case (finish e)
  from finish(2) show ?thesis
  proof (cases rule: endTurn_cases)
    case noop
    with inv show ?thesis by simp
  next
    case turn
    from endTurnDraw_cardsInv[OF turn inv finish(1)] show ?thesis .
  qed
qed

lemma hookReachable_cardsInv: "hookReachable ownAttackCard okAsset s \<Longrightarrow> cardsInv s"
proof (induction rule: hookReachable.induct)
  case (start e)
  then show ?case by (rule cardsInv_start)
next
  case (step s s')
  from hookStep_cardsInv[OF step(2) step(3)] show ?case .
qed

section \<open>The example game\<close>

text \<open>The environments of the examples make distinct ids, and the later one fresh ones.\<close>

lemma takeWhile_replicate_other:
  "b \<noteq> a \<Longrightarrow> takeWhile (\<lambda>c. c = a) (replicate n a @ b # ys) = replicate n a"
  by (induction n) simp_all

lemma envWith_newId_k:
  "takeWhile (\<lambda>c. c = CHR ''k'') (newId (envWith r) k j) = replicate (Suc k) (CHR ''k'')"
proof -
  have ne: "CHR ''j'' \<noteq> CHR ''k''" by simp
  have "newId (envWith r) k j = replicate (Suc k) (CHR ''k'') @ CHR ''j'' # replicate j (CHR ''j'')"
    by (simp add: envWith_def)
  then show ?thesis by (simp only: takeWhile_replicate_other[OF ne])
qed

lemma envWith_newId_length: "length (newId (envWith r) k j) = k + j + 2"
  by (simp add: envWith_def)

lemma envWith_newId_inj:
  assumes "newId (envWith r) k j = newId (envWith r) k' j'"
  shows "k = k' \<and> j = j'"
proof -
  from assms have "takeWhile (\<lambda>c. c = CHR ''k'') (newId (envWith r) k j)
      = takeWhile (\<lambda>c. c = CHR ''k'') (newId (envWith r) k' j')" by (rule arg_cong)
  then have "replicate (Suc k) (CHR ''k'') = replicate (Suc k') (CHR ''k'')"
    by (simp only: envWith_newId_k)
  then have "length (replicate (Suc k) (CHR ''k'')) = length (replicate (Suc k') (CHR ''k''))"
    by (rule arg_cong)
  then have k: "k = k'" by (simp only: length_replicate nat.inject)
  from assms have "length (newId (envWith r) k j) = length (newId (envWith r) k' j')"
    by (rule arg_cong)
  then have "k + j + 2 = k' + j' + 2" by (simp only: envWith_newId_length)
  with k show ?thesis by simp
qed

lemma idsDistinct_envWith: "idsDistinct (envWith r)"
  unfolding idsDistinct_def using envWith_newId_inj by blast

lemma envLater_newId: "newId (envLater r) k j = CHR ''n'' # newId (envWith r) k j"
  by (simp add: envLater_def)

lemma idsDistinct_envLater: "idsDistinct (envLater r)"
  unfolding idsDistinct_def envLater_newId using envWith_newId_inj by blast

lemma envLater_fresh:
  assumes "list_all (\<lambda>c. hd (instanceId c) = CHR ''k'')
             (taHand (player s) @ dcHand (player s) @ taHand (ai s) @ dcHand (ai s))"
  shows "idsFresh (envLater r) s"
proof -
  have "newId (envLater r) k j \<notin> handIds s" for k j
  proof
    assume "newId (envLater r) k j \<in> handIds s"
    then obtain c where c: "c \<in> set (taHand (player s) @ dcHand (player s) @ taHand (ai s) @ dcHand (ai s))"
      and i: "newId (envLater r) k j = instanceId c"
      by (auto simp: handIds_def)
    from assms c have "hd (instanceId c) = CHR ''k''" by (simp add: list_all_iff)
    with i[symmetric] show False by (simp add: envLater_newId)
  qed
  with idsDistinct_envLater show ?thesis by (simp add: idsFresh_def)
qed

text \<open>The states of the example game are states of a game, whatever may be selected.\<close>

lemma openingState_reachable: "hookReachable okCard okAsset openingState"
proof -
  let ?s1 = "setDifficulty hard (initializeGame (envWith 0))"
  have 0: "hookReachable okCard okAsset (initializeGame (envWith 0))"
    by (rule hookReachable.start) (rule idsDistinct_envWith)
  have 1: "hookReachable okCard okAsset ?s1"
    by (rule hookReachable.step[OF 0]) (rule hookStep.chooseDifficulty)
  have f: "idsFresh (envLater 0) ?s1" by (rule envLater_fresh) code_simp
  have r: "performCoinFlip (envLater 0) False ?s1 = Inr openingState" by code_simp
  show ?thesis by (rule hookReachable.step[OF 1]) (rule hookStep.coinFlip[OF f r])
qed

lemma picked_reachable:
  assumes r: "hookReachable okCard okAsset s"
    and fc: "first (taHand (player s)) = Some c" and fa: "first (assets (ai s)) = Some a"
    and c: "okCard s c" and a: "okAsset (selectCard (Some c) s) a"
  shows "hookReachable okCard okAsset (picked s)"
proof -
  have p: "picked s = selectAsset (Some a) (selectCard (Some c) s)"
    by (simp add: picked_def fc fa selectAsset_def selectCard_def)
  have 1: "hookReachable okCard okAsset (selectCard (Some c) s)"
  proof (rule hookReachable.step[OF r])
    show "hookStep okCard okAsset s (selectCard (Some c) s)"
      by (rule hookStep.pickCard) (rule c)
  qed
  show ?thesis unfolding p
  proof (rule hookReachable.step[OF 1])
    show "hookStep okCard okAsset (selectCard (Some c) s) (selectAsset (Some a) (selectCard (Some c) s))"
      by (rule hookStep.pickAsset) (rule a)
  qed
qed

lemma attackFirst_step:
  assumes "list_all (\<lambda>c. hd (instanceId c) = CHR ''k'')
             (taHand (player (picked s)) @ dcHand (player (picked s))
              @ taHand (ai (picked s)) @ dcHand (ai (picked s)))"
  shows "hookStep okCard okAsset (picked s) (attackFirst s)"
  unfolding attackFirst_def by (rule hookStep.attack[OF envLater_fresh[OF assms]])

lemma attackFirst_reachable:
  assumes r: "hookReachable anyCard anyAsset s"
    and ok: "first (taHand (player s)) \<noteq> None \<and> first (assets (ai s)) \<noteq> None \<and>
             list_all (\<lambda>c. hd (instanceId c) = CHR ''k'')
               (taHand (player (picked s)) @ dcHand (player (picked s))
                @ taHand (ai (picked s)) @ dcHand (ai (picked s)))"
  shows "hookReachable anyCard anyAsset (attackFirst s)"
proof -
  from ok obtain c a where f: "first (taHand (player s)) = Some c" "first (assets (ai s)) = Some a"
    by auto
  have p: "hookReachable anyCard anyAsset (picked s)"
    by (rule picked_reachable[OF r f]) (simp_all add: anyCard_def anyAsset_def)
  from ok have k: "list_all (\<lambda>c. hd (instanceId c) = CHR ''k'')
               (taHand (player (picked s)) @ dcHand (player (picked s))
                @ taHand (ai (picked s)) @ dcHand (ai (picked s)))" by (elim conjE)
  show ?thesis by (rule hookReachable.step[OF p attackFirst_step[OF k]])
qed

lemma fourthHit_reachable: "hookReachable anyCard anyAsset thirdHit \<and> hookReachable anyCard anyAsset fourthHit"
proof -
  have 1: "hookReachable anyCard anyAsset (attackFirst openingState)"
    by (rule attackFirst_reachable[OF openingState_reachable]) code_simp
  have 2: "hookReachable anyCard anyAsset (attackFirst (attackFirst openingState))"
    by (rule attackFirst_reachable[OF 1]) code_simp
  have 3: "hookReachable anyCard anyAsset thirdHit"
    unfolding thirdHit_def by (rule attackFirst_reachable[OF 2]) code_simp
  have 4: "hookReachable anyCard anyAsset fourthHit"
    unfolding fourthHit_def by (rule attackFirst_reachable[OF 3]) code_simp
  from 3 4 show ?thesis by (rule conjI)
qed

lemma afterTurn_step: "hookStep okCard okAsset (attackFirst openingState) afterTurn"
proof -
  have f: "idsFresh (envLater 0.99) (attackFirst openingState)" by (rule envLater_fresh) code_simp
  have r: "endTurn (envLater 0.99) False (attackFirst openingState) = Inr afterTurn" by code_simp
  show ?thesis by (rule hookStep.finish[OF f r])
qed

section \<open>Properties\<close>

subsection \<open>C1: the match rule\<close>

text \<open>
  Claim C1. For every pair of playable cards, \<open>canDefend attack defense\<close> is true exactly when
  one of the two cards is a joker, or the defense card is a defense control, the attack card is
  a threat agent and both carry the same value. In every other combination of categories it is
  false. The function is total: it has a boolean result on every pair and no error case.
\<close>

theorem canDefend_iff:
  "canDefend a d \<longleftrightarrow>
     category a = joker \<or> category d = joker \<or>
     (category d = defense_control \<and> category a = threat_agent \<and>
      (\<exists>v. card_value d = Some v \<and> card_value a = Some v))"
  by (cases a; cases d) (auto simp: canDefend_def)

subsection \<open>C2: the order of the win conditions\<close>



subsection \<open>C3: the lifecycle index and the damage counter\<close>




subsection \<open>C4: the number of cards\<close>




subsection \<open>C5: a blocked attack of the player\<close>

text \<open>
  Claim C5. When the player's attack is resolved and the AI produces a defense card \<open>d\<close>, that
  card is one of the AI's defense hand that defends against the attack card, and in the
  resulting state: the attack card has left the player's attack hand and is the last card of
  the player's attack discard; the defense card is the last card of the AI's defense discard;
  the AI's counter of successful defenses is one higher; the AI's defense hand is the hand
  without the defense card followed by the first two cards of the defense pile (fewer when the
  pile holds fewer), which are taken off the pile; and the assets of both sides, so the
  targeted asset's state and damage count, are as before. When the instance ids of a hand are
  distinct, the hand loses exactly one card.
\<close>

theorem blocked_player_attack:
  assumes "selectedCard s = Some c" and "selectedAsset s = Some t"
    and "phase s = attack_phase" and "currentAttacker s = Player"
    and "decCard (aiChooseDefense (rnd e 0 0) (dcHand (ai s)) (card c) (orHard (difficulty s))) = Some d"
  shows "d \<in> set (dcHand (ai s)) \<and> canDefend (card c) (card d) \<and>
     taHand (player (playerAttack e False s)) = withoutCard c (taHand (player s)) \<and>
     c \<notin> set (taHand (player (playerAttack e False s))) \<and>
     taDiscard (player (playerAttack e False s)) = taDiscard (player s) @ [card c] \<and>
     dcDiscard (ai (playerAttack e False s)) = dcDiscard (ai s) @ [card d] \<and>
     successfulDefenses (ai (playerAttack e False s)) = successfulDefenses (ai s) + 1 \<and>
     dcHand (ai (playerAttack e False s)) =
       withoutCard d (dcHand (ai s)) @ mapHandCards (newId e 0) 0 (take 2 (dcDeck s)) \<and>
     length (dcHand (ai (playerAttack e False s))) =
       min (length (withoutCard d (dcHand (ai s))) + 2)
           (length (withoutCard d (dcHand (ai s))) + length (dcDeck s)) \<and>
     dcDeck (playerAttack e False s) = drop 2 (dcDeck s) \<and>
     assets (ai (playerAttack e False s)) = assets (ai s) \<and>
     assets (player (playerAttack e False s)) = assets (player s) \<and>
     (c \<in> set (taHand (player s)) \<and> distinct (map instanceId (taHand (player s)))
        \<longrightarrow> Suc (length (taHand (player (playerAttack e False s)))) = length (taHand (player s))) \<and>
     (distinct (map instanceId (dcHand (ai s)))
        \<longrightarrow> Suc (length (withoutCard d (dcHand (ai s)))) = length (dcHand (ai s)))"
proof -
  have eq: "playerAttack e False s =
      (applyWin (playerAttackBlocked e c d (playerAttackStart c t s)))\<lparr>animation := anim_none\<rparr>"
    using playerAttack_resolved[OF assms(1-4), of e] assms(5) by simp
  have v: "d \<in> set (dcHand (ai s)) \<and> canDefend (card c) (card d)"
    using aiChooseDefense_valid[OF assms(5)] .
  show ?thesis
    unfolding eq using v
    by (auto simp: drawToHandSize_two withoutCard_not_mem length_withoutCard_distinct min_def)
qed


text \<open>
  The scene of the specification: the AI holds the five of spades against the five of
  hearts.
\<close>

theorem blocked_player_attack_witness:
  "selectedCard blockScene = Some fiveOfHearts \<and> selectedAsset blockScene = Some jackOfHearts \<and>
   phase blockScene = attack_phase \<and> currentAttacker blockScene = Player \<and>
   decCard (aiChooseDefense (rnd (envWith 0) 0 0) (dcHand (ai blockScene)) (card fiveOfHearts)
              (orHard (difficulty blockScene))) = Some fiveOfSpades \<and>
   taHand (player (playerAttack (envWith 0) False blockScene)) = [sevenOfDiamonds] \<and>
   taDiscard (player (playerAttack (envWith 0) False blockScene)) = [ThreatAgentCard 5 hearts 5] \<and>
   dcDiscard (ai (playerAttack (envWith 0) False blockScene)) = [DefenseControlCard 31 spades 5] \<and>
   successfulDefenses (ai (playerAttack (envWith 0) False blockScene)) = 1 \<and>
   dcHand (ai (playerAttack (envWith 0) False blockScene)) =
     [nineOfClubs,
      \<lparr>instanceId = ''kj'', card = DefenseControlCard 27 spades 1\<rparr>,
      \<lparr>instanceId = ''kjj'', card = DefenseControlCard 28 spades 2\<rparr>] \<and>
   dcDeck (playerAttack (envWith 0) False blockScene) = [DefenseControlCard 30 spades 4] \<and>
   assets (ai (playerAttack (envWith 0) False blockScene)) = [jackOfHearts, queenOfHearts, kingOfHearts]"
proof -
  have g: "selectedCard blockScene = Some fiveOfHearts" "selectedAsset blockScene = Some jackOfHearts"
    "phase blockScene = attack_phase" "currentAttacker blockScene = Player"
    by (simp_all add: blockScene_def)
  have dec: "decCard (aiChooseDefense (rnd (envWith 0) 0 0) (dcHand (ai blockScene))
               (card fiveOfHearts) (orHard (difficulty blockScene))) = Some fiveOfSpades"
    by (simp add: blockScene_def example_defs model_defs)
  from blocked_player_attack[OF g dec] g dec show ?thesis
    by (simp add: blockScene_def example_defs withoutCard_def createHandCard_def)
qed

subsection \<open>C6: the turn after a blocked attack\<close>





subsection \<open>C7: attacks on destroyed assets\<close>





subsection \<open>C8: calls out of turn\<close>

text \<open>
  Claim C8. A call of \<open>attack()\<close> or \<open>endTurn()\<close> while the phase is not \<open>attack_phase\<close>, or
  while the current attacker is not the player, and a call of \<open>attack()\<close> without a selected
  card or without a selected asset, returns the game state as it was and raises nothing. (The
  same holds while the hook is processing another call.)
\<close>

theorem no_op_outside_turn:
  "((isProcessing \<or> selectedCard s = None \<or> selectedAsset s = None
       \<or> phase s \<noteq> attack_phase \<or> currentAttacker s \<noteq> Player)
      \<longrightarrow> playerAttack e isProcessing s = s) \<and>
   ((isProcessing \<or> phase s \<noteq> attack_phase \<or> currentAttacker s \<noteq> Player)
      \<longrightarrow> endTurn e isProcessing s = Inr s)"
  by (auto simp: playerAttack_def endTurn_def split: option.splits)

text \<open>
  Four such calls: after the game is won, in the AI's turn, without a selected asset and
  without a selected card.
\<close>

theorem no_op_outside_turn_witness:
  "phase (blockScene\<lparr>phase := player_won\<rparr>) \<noteq> attack_phase \<and>
   playerAttack (envWith 0) False (blockScene\<lparr>phase := player_won\<rparr>) = blockScene\<lparr>phase := player_won\<rparr> \<and>
   endTurn (envWith 0) False (blockScene\<lparr>phase := player_won\<rparr>) = Inr (blockScene\<lparr>phase := player_won\<rparr>) \<and>
   currentAttacker (blockScene\<lparr>currentAttacker := AI\<rparr>) \<noteq> Player \<and>
   playerAttack (envWith 0) False (blockScene\<lparr>currentAttacker := AI\<rparr>) = blockScene\<lparr>currentAttacker := AI\<rparr> \<and>
   endTurn (envWith 0) False (blockScene\<lparr>currentAttacker := AI\<rparr>) = Inr (blockScene\<lparr>currentAttacker := AI\<rparr>) \<and>
   selectedAsset (blockScene\<lparr>selectedAsset := None\<rparr>) = None \<and>
   playerAttack (envWith 0) False (blockScene\<lparr>selectedAsset := None\<rparr>) = blockScene\<lparr>selectedAsset := None\<rparr> \<and>
   selectedCard (blockScene\<lparr>selectedCard := None\<rparr>) = None \<and>
   playerAttack (envWith 0) False (blockScene\<lparr>selectedCard := None\<rparr>) = blockScene\<lparr>selectedCard := None\<rparr>"
  using no_op_outside_turn[of False "blockScene\<lparr>phase := player_won\<rparr>" "envWith 0"]
    no_op_outside_turn[of False "blockScene\<lparr>currentAttacker := AI\<rparr>" "envWith 0"]
    no_op_outside_turn[of False "blockScene\<lparr>selectedAsset := None\<rparr>" "envWith 0"]
    no_op_outside_turn[of False "blockScene\<lparr>selectedCard := None\<rparr>" "envWith 0"]
  by (simp add: blockScene_def)

subsection \<open>C9: the AI's choice of a target\<close>



subsection \<open>C10: destroyed is absorbing\<close>






end
